theory Spec2Isabelle
  imports Main
begin

section \<open>Strings and Python primitives\<close>

text \<open>
  Python strings are modelled as lists of bytes holding their UTF-8 encoding: the
  non-ASCII symbols the program prints are written as their three bytes. Concatenation,
  joining and equality of strings agree with Python's on that encoding.
\<close>

definition digit_char :: "nat \<Rightarrow> char" where
  "digit_char d = ''0123456789'' ! d"

text \<open>\<open>str(n)\<close> for a non-negative integer: its decimal digits, most significant first.\<close>

function str_nat :: "nat \<Rightarrow> string" where
  "str_nat n = (if n < 10 then [digit_char n] else str_nat (n div 10) @ [digit_char (n mod 10)])"
  by pat_completeness auto
termination
  by (relation "measure id") auto

declare str_nat.simps [simp del]

text \<open>\<open>str(i)\<close> for a Python integer (unbounded).\<close>

definition str_int :: "int \<Rightarrow> string" where
  "str_int i = (if i < 0 then CHR ''-'' # str_nat (nat (- i)) else str_nat (nat i))"

text \<open>\<open>sep.join(xs)\<close>.\<close>

fun join :: "string \<Rightarrow> string list \<Rightarrow> string" where
  "join sep [] = []"
| "join sep [x] = x"
| "join sep (x # y # ys) = x @ sep @ join sep (y # ys)"

text \<open>
  The exceptions the program can meet. \<open>Exception\<close> is the plain exception raised by
  \<open>RuleValue.render\<close>, with its message.
\<close>

datatype error =
    Exception string
  | ValueError string
  | KeyError string
  | TypeError
  | ZeroDivisionError
  | IndexError
  | EOFError

section \<open>Value object\<close>

record rule_value =
  number :: int
  tags :: "string list"
  banned :: bool

text \<open>\<open>RuleValue(number=num)\<close>: no tags, not banned.\<close>

definition RuleValue :: "int \<Rightarrow> rule_value" where
  "RuleValue num = \<lparr>number = num, tags = [], banned = False\<rparr>"

text \<open>
  \<open>tag\<close> and \<open>ban\<close> mutate the value and return it; every value is used by one caller
  only, so the mutation is the returned value.
\<close>

definition tag :: "rule_value \<Rightarrow> string \<Rightarrow> rule_value" where
  "tag rv text = rv\<lparr>tags := tags rv @ [text]\<rparr>"

definition ban_value :: "rule_value \<Rightarrow> rule_value" where
  "ban_value rv = rv\<lparr>banned := True\<rparr>"

text \<open>The message of the exception of \<open>render\<close>: \<open>f"Game Over <cross mark> <em dash> {number} is banned"\<close>.\<close>

definition banned_message :: "int \<Rightarrow> string" where
  "banned_message n =
     ''Game Over '' @ [CHR 0xE2, CHR 0x9D, CHR 0x8C] @ '' '' @ [CHR 0xE2, CHR 0x80, CHR 0x94] @ '' ''
       @ str_int n @ '' is banned''"

definition render :: "rule_value \<Rightarrow> error + string" where
  "render rv =
     (if banned rv then Inl (Exception (banned_message (number rv)))
      else Inr (if tags rv \<noteq> [] then join '' '' (tags rv) else str_int (number rv)))"

section \<open>Rule metadata\<close>

text \<open>
  A parameter of a rule is an integer or a text. The \<open>params\<close> dictionary is the list of
  its items in insertion order, with distinct keys.
\<close>

datatype pval = PInt int | PStr string

type_synonym dict = "(string \<times> pval) list"

record rule_entry =
  kind :: string
  params :: dict
  description :: string
  fn :: "rule_value \<Rightarrow> rule_value"

text \<open>
  \<open>d1 == d2\<close> on dictionaries: the same number of items, and every key of \<open>d1\<close> is a key of
  \<open>d2\<close> with an equal value; the order of insertion plays no part.
\<close>

definition dict_eq :: "dict \<Rightarrow> dict \<Rightarrow> bool" where
  "dict_eq d1 d2 = (length d1 = length d2 \<and> list_all (\<lambda>(k, v). map_of d2 k = Some v) d1)"

text \<open>\<open>entry.params[key]\<close>: a missing key raises \<open>KeyError\<close>.\<close>

definition params_get :: "rule_entry \<Rightarrow> string \<Rightarrow> error + pval" where
  "params_get r key =
     (case map_of (params r) key of None \<Rightarrow> Inl (KeyError key) | Some v \<Rightarrow> Inr v)"

text \<open>How an f-string shows a parameter value.\<close>

fun str_pval :: "pval \<Rightarrow> string" where
  "str_pval (PInt i) = str_int i"
| "str_pval (PStr s) = s"

definition arrow :: string where
  "arrow = [CHR 0xE2, CHR 0x86, CHR 0x92]"

definition double_arrow :: string where
  "double_arrow = [CHR 0xE2, CHR 0x86, CHR 0x94]"

definition em_dash :: string where
  "em_dash = [CHR 0xE2, CHR 0x80, CHR 0x94]"

section \<open>Conflict checker\<close>

text \<open>
  \<open>banned_numbers\<close>: the set comprehension over the active rules of kind \<open>ban\<close>. The set is
  kept as a list without repetitions; only membership is ever asked of it.
\<close>

fun banned_numbers :: "rule_entry list \<Rightarrow> error + pval list" where
  "banned_numbers [] = Inr []"
| "banned_numbers (r # rs) =
     (if kind r = ''ban'' then
        (case params_get r ''num'' of
           Inl e \<Rightarrow> Inl e
         | Inr v \<Rightarrow> (case banned_numbers rs of Inl e \<Rightarrow> Inl e | Inr vs \<Rightarrow> Inr (List.insert v vs)))
      else banned_numbers rs)"

text \<open>Step 1 of \<open>check\<close>: the first active rule with the proposed kind and params.\<close>

fun find_duplicate :: "rule_entry list \<Rightarrow> rule_entry \<Rightarrow> rule_entry option" where
  "find_duplicate [] proposed = None"
| "find_duplicate (existing # rest) proposed =
     (if kind existing = kind proposed \<and> dict_eq (params existing) (params proposed) then Some existing
      else find_duplicate rest proposed)"

definition duplicate_message :: "rule_entry \<Rightarrow> string" where
  "duplicate_message existing =
     ''An identical rule already exists '' @ arrow @ '' ['' @ description existing @ '']''"

definition replace_banned_message :: "pval \<Rightarrow> string" where
  "replace_banned_message n =
     str_pval n @ '' is already banned '' @ em_dash @ '' a replace rule for it would never fire''"

definition swap_banned_message :: "pval \<Rightarrow> string" where
  "swap_banned_message n =
     str_pval n @ '' is already banned '' @ em_dash @ '' it cannot participate in a swap''"

text \<open>Step 3 of \<open>check\<close>: the loop over the sides \<open>a\<close>, \<open>b\<close> of a proposed swap.\<close>

fun check_sides :: "pval list \<Rightarrow> rule_entry \<Rightarrow> string list \<Rightarrow> error + string option" where
  "check_sides bs proposed [] = Inr None"
| "check_sides bs proposed (side # sides) =
     (case params_get proposed side of
        Inl e \<Rightarrow> Inl e
      | Inr n \<Rightarrow> if n \<in> set bs then Inr (Some (swap_banned_message n))
                else check_sides bs proposed sides)"

text \<open>Step 3 of \<open>check\<close>, for a proposed swap only.\<close>

definition check_swap :: "pval list \<Rightarrow> rule_entry \<Rightarrow> error + string option" where
  "check_swap bs proposed =
     (if kind proposed = ''swap'' then check_sides bs proposed [''a'', ''b''] else Inr None)"

text \<open>
  \<open>ConflictChecker(active).check(proposed)\<close>: a conflict message, or \<open>None\<close> when the rule is
  clean. The banned numbers are computed first, as in the source.
\<close>

definition check :: "rule_entry list \<Rightarrow> rule_entry \<Rightarrow> error + string option" where
  "check active proposed =
     (case banned_numbers active of
        Inl e \<Rightarrow> Inl e
      | Inr bs \<Rightarrow>
          (case find_duplicate active proposed of
             Some existing \<Rightarrow> Inr (Some (duplicate_message existing))
           | None \<Rightarrow>
               (if kind proposed = ''replace'' then
                  (case params_get proposed ''num'' of
                     Inl e \<Rightarrow> Inl e
                   | Inr n \<Rightarrow> if n \<in> set bs then Inr (Some (replace_banned_message n))
                             else check_swap bs proposed)
                else check_swap bs proposed)))"

section \<open>Rule factory\<close>

definition swap :: "int \<Rightarrow> int \<Rightarrow> rule_entry" where
  "swap a b =
     \<lparr>kind = ''swap'',
      params = [(''a'', PInt a), (''b'', PInt b)],
      description = ''Swap '' @ str_int a @ '' '' @ double_arrow @ '' '' @ str_int b,
      fn = (\<lambda>rv. if number rv = a then rv\<lparr>number := b\<rparr>
                 else if number rv = b then rv\<lparr>number := a\<rparr>
                 else rv)\<rparr>"

definition replace :: "int \<Rightarrow> string \<Rightarrow> rule_entry" where
  "replace num text =
     \<lparr>kind = ''replace'',
      params = [(''num'', PInt num), (''text'', PStr text)],
      description = ''Replace '' @ str_int num @ '' '' @ arrow @ '' '' @ [CHR 0x27] @ text @ [CHR 0x27],
      fn = (\<lambda>rv. if number rv = num then tag rv text else rv)\<rparr>"

definition ban :: "int \<Rightarrow> rule_entry" where
  "ban num =
     \<lparr>kind = ''ban'',
      params = [(''num'', PInt num)],
      description = ''Ban '' @ str_int num,
      fn = (\<lambda>rv. if number rv = num then ban_value rv else rv)\<rparr>"

text \<open>\<open>divisible\<close> raises \<open>ValueError\<close> for the divisor 0, before any entry is built.\<close>

definition divisible :: "int \<Rightarrow> string \<Rightarrow> error + rule_entry" where
  "divisible divisor text =
     (if divisor = 0 then Inl (ValueError ''Divisor cannot be zero.'')
      else Inr
        \<lparr>kind = ''divisible'',
         params = [(''divisor'', PInt divisor), (''text'', PStr text)],
         description = ''Divisible by '' @ str_int divisor @ '' '' @ arrow @ '' '' @ [CHR 0x27] @ text @ [CHR 0x27],
         fn = (\<lambda>rv. if number rv mod divisor = 0 then tag rv text else rv)\<rparr>)"

definition odd_rule :: "string \<Rightarrow> rule_entry" where
  "odd_rule text =
     \<lparr>kind = ''odd'',
      params = [(''text'', PStr text)],
      description = ''Odd '' @ arrow @ '' '' @ [CHR 0x27] @ text @ [CHR 0x27],
      fn = (\<lambda>rv. if number rv mod 2 \<noteq> 0 then tag rv text else rv)\<rparr>"

definition even_rule :: "string \<Rightarrow> rule_entry" where
  "even_rule text =
     \<lparr>kind = ''even'',
      params = [(''text'', PStr text)],
      description = ''Even '' @ arrow @ '' '' @ [CHR 0x27] @ text @ [CHR 0x27],
      fn = (\<lambda>rv. if number rv mod 2 = 0 then tag rv text else rv)\<rparr>"

text \<open>The entries the six constructors can return.\<close>

inductive factory_built :: "rule_entry \<Rightarrow> bool" where
  fb_swap: "factory_built (swap a b)"
| fb_replace: "factory_built (replace num text)"
| fb_ban: "factory_built (ban num)"
| fb_divisible: "divisible divisor text = Inr r \<Longrightarrow> factory_built r"
| fb_odd: "factory_built (odd_rule text)"
| fb_even: "factory_built (even_rule text)"

section \<open>Game\<close>

record rule_game =
  active_rules :: "rule_entry list"
  range_start :: int
  range_end :: int

text \<open>\<open>RuleGame()\<close>: no rules, the range 1 to 10.\<close>

definition new_game :: rule_game where
  "new_game = \<lparr>active_rules = [], range_start = 1, range_end = 10\<rparr>"

definition check_mark :: string where
  "check_mark = [CHR 0xE2, CHR 0x9C, CHR 0x93]"

definition ballot_x :: string where
  "ballot_x = [CHR 0xE2, CHR 0x9C, CHR 0x97]"

definition warning_sign :: string where
  "warning_sign = [CHR 0xE2, CHR 0x9A, CHR 0xA0]"



text \<open>
  \<open>try_add\<close>: the value returned, what is printed, and the game afterwards. The test
  \<open>if conflict\<close> is Python's truth test: \<open>None\<close> and the empty string are false.
\<close>

definition try_add :: "rule_game \<Rightarrow> rule_entry \<Rightarrow> error + (bool \<times> string list \<times> rule_game)" where
  "try_add g entry =
     (case check (active_rules g) entry of
        Inl e \<Rightarrow> Inl e
      | Inr conflict \<Rightarrow>
          (if conflict \<noteq> None \<and> conflict \<noteq> Some [] then
             Inr (False,
                  [[CHR 0x0A] @ ''  '' @ warning_sign @ ''  Conflict detected: '' @ the conflict],
                  g)
           else
             Inr (True,
                  [''  '' @ check_mark @ '' Rule added: ['' @ description entry @ '']''],
                  g\<lparr>active_rules := active_rules g @ [entry]\<rparr>)))"


text \<open>
  The lines the player types are a list; \<open>input\<close> takes the first and raises \<open>EOFError\<close>
  when none is left. Python's conversion \<open>int(text)\<close> is a parameter \<open>to_int\<close>: it gives
  the integer or raises (\<open>ValueError\<close> for a text that is no integer).
\<close>

type_synonym stdin = "string list"

definition input :: "stdin \<Rightarrow> error + (string \<times> stdin)" where
  "input s = (case s of [] \<Rightarrow> Inl EOFError | line # rest \<Rightarrow> Inr (line, rest))"

definition input_int :: "(string \<Rightarrow> error + int) \<Rightarrow> stdin \<Rightarrow> error + (int \<times> stdin)" where
  "input_int to_int s =
     (case input s of
        Inl e \<Rightarrow> Inl e
      | Inr (line, rest) \<Rightarrow> (case to_int line of Inl e \<Rightarrow> Inl e | Inr i \<Rightarrow> Inr (i, rest)))"

text \<open>
  \<open>prompt_int\<close>: the integer typed, or \<open>None\<close> after printing its own line when the line
  typed is no integer (the \<open>ValueError\<close> of the conversion is caught; any other exception
  propagates). The result holds what was returned, what was printed and the lines left.
\<close>

definition prompt_int ::
  "(string \<Rightarrow> error + int) \<Rightarrow> stdin \<Rightarrow> error + (int option \<times> string list \<times> stdin)" where
  "prompt_int to_int s =
     (case input s of
        Inl e \<Rightarrow> Inl e
      | Inr (line, rest) \<Rightarrow>
          (case to_int line of
             Inl (ValueError msg) \<Rightarrow>
               Inr (None, [''  '' @ ballot_x @ '' Please enter a valid integer.''], rest)
           | Inl e \<Rightarrow> Inl e
           | Inr i \<Rightarrow> Inr (Some i, [], rest)))"

text \<open>
  The menu functions below take what \<open>prompt_int\<close> returned. What it printed on the way is
  determined by what it returned: its line for \<open>None\<close>, nothing for an integer.
\<close>

definition prompt_int_printed :: "int option \<Rightarrow> string list" where
  "prompt_int_printed choice =
     (case choice of
        None \<Rightarrow> [''  '' @ ballot_x @ '' Please enter a valid integer.'']
      | Some c \<Rightarrow> [])"


section \<open>Menus\<close>

text \<open>\<open>PREDEFINED\<close>: the menu text and what the builder returns, for the choices 1 to 5.\<close>

definition predefined :: "int \<Rightarrow> (string \<times> (error + rule_entry)) option" where
  "predefined choice =
     (if choice = 1 then Some (''Swap 6 '' @ double_arrow @ '' 9'', Inr (swap 6 9))
      else if choice = 2 then
        Some (''Replace 1 '' @ arrow @ '' '' @ [CHR 0x27] @ ''ewww 1'' @ [CHR 0x27],
              Inr (replace 1 ''ewww 1''))
      else if choice = 3 then Some (''Ban 4'', Inr (ban 4))
      else if choice = 4 then Some (''Divisible by 3 '' @ arrow @ '' Fizz'', divisible 3 ''Fizz'')
      else if choice = 5 then
        Some (''Odd '' @ arrow @ '' '' @ [CHR 0x27] @ ''Odd'' @ [CHR 0x27], Inr (odd_rule ''Odd''))
      else None)"

text \<open>
  \<open>add_predefined_rule\<close>, given what \<open>prompt_int\<close> returned for the selection: what is
  printed during the call, the line of \<open>prompt_int\<close> included, and the game afterwards.
\<close>

definition add_predefined_rule :: "rule_game \<Rightarrow> int option \<Rightarrow> error + (string list \<times> rule_game)" where
  "add_predefined_rule g choice =
     (let out = [[CHR 0x0A] @ ''  Predefined Rules:'']
                @ map (\<lambda>k. ''    '' @ str_int k @ ''. '' @ fst (the (predefined k))) [1 .. 5]
                @ prompt_int_printed choice in
      case (case choice of None \<Rightarrow> None | Some c \<Rightarrow> predefined c) of
        None \<Rightarrow> Inr (out @ [''  '' @ ballot_x @ '' Invalid selection.''], g)
      | Some (desc, built) \<Rightarrow>
          (case built of
             Inl e \<Rightarrow> Inl e
           | Inr entry \<Rightarrow>
               (case try_add g entry of
                  Inl e \<Rightarrow> Inl e
                | Inr (ok, printed, g') \<Rightarrow> Inr (out @ printed, g'))))"

text \<open>
  \<open>PATTERNS\<close>: the menu text and the builder of each choice 1 to 6. A builder reads its
  arguments from the console, left to right, and then calls the constructor.
\<close>

definition patterns ::
  "(string \<Rightarrow> error + int) \<Rightarrow> int \<Rightarrow> (string \<times> (stdin \<Rightarrow> error + (rule_entry \<times> stdin))) option" where
  "patterns to_int choice =
     (if choice = 1 then
        Some (''Swap A B'',
          \<lambda>s. case input_int to_int s of
                 Inl e \<Rightarrow> Inl e
               | Inr (a, s1) \<Rightarrow>
                   (case input_int to_int s1 of
                      Inl e \<Rightarrow> Inl e
                    | Inr (b, s2) \<Rightarrow> Inr (swap a b, s2)))
      else if choice = 2 then
        Some (''Replace N TEXT'',
          \<lambda>s. case input_int to_int s of
                 Inl e \<Rightarrow> Inl e
               | Inr (n, s1) \<Rightarrow>
                   (case input s1 of
                      Inl e \<Rightarrow> Inl e
                    | Inr (text, s2) \<Rightarrow> Inr (replace n text, s2)))
      else if choice = 3 then
        Some (''Ban N'',
          \<lambda>s. case input_int to_int s of
                 Inl e \<Rightarrow> Inl e
               | Inr (n, s1) \<Rightarrow> Inr (ban n, s1))
      else if choice = 4 then
        Some (''Divisible D TEXT'',
          \<lambda>s. case input_int to_int s of
                 Inl e \<Rightarrow> Inl e
               | Inr (d, s1) \<Rightarrow>
                   (case input s1 of
                      Inl e \<Rightarrow> Inl e
                    | Inr (text, s2) \<Rightarrow>
                        (case divisible d text of
                           Inl e \<Rightarrow> Inl e
                         | Inr entry \<Rightarrow> Inr (entry, s2))))
      else if choice = 5 then
        Some (''Odd TEXT'',
          \<lambda>s. case input s of
                 Inl e \<Rightarrow> Inl e
               | Inr (text, s1) \<Rightarrow> Inr (odd_rule text, s1))
      else if choice = 6 then
        Some (''Even TEXT'',
          \<lambda>s. case input s of
                 Inl e \<Rightarrow> Inl e
               | Inr (text, s1) \<Rightarrow> Inr (even_rule text, s1))
      else None)"

text \<open>
  The retry loop of \<open>add_custom_rule\<close>, \<open>for attempt in range(MAX_RETRIES)\<close> with
  \<open>MAX_RETRIES = 3\<close>: a \<open>ValueError\<close> of the builder is caught and ends the function, any
  other exception propagates; a rule that is added ends the function.
\<close>

fun custom_attempts ::
  "(stdin \<Rightarrow> error + (rule_entry \<times> stdin)) \<Rightarrow> int list \<Rightarrow> rule_game \<Rightarrow> stdin \<Rightarrow> string list
     \<Rightarrow> error + (string list \<times> rule_game)" where
  "custom_attempts builder [] g s out = Inr (out, g)"
| "custom_attempts builder (attempt # attempts) g s out =
     (case builder s of
        Inl (ValueError msg) \<Rightarrow>
          Inr (out @ [''  '' @ ballot_x @ '' Invalid input '' @ em_dash @ '' expected a number.''], g)
      | Inl e \<Rightarrow> Inl e
      | Inr (entry, s') \<Rightarrow>
          (case try_add g entry of
             Inl e \<Rightarrow> Inl e
           | Inr (ok, printed, g') \<Rightarrow>
               if ok then Inr (out @ printed, g')
               else custom_attempts builder attempts g' s'
                      (out @ printed @
                         [if attempt < 3 - 1
                          then ''  Please define a different rule (attempt '' @ str_int (attempt + 2)
                                 @ ''/'' @ str_int 3 @ ''):''
                          else ''  '' @ ballot_x @ '' Max retries reached. Returning to menu.''])))"

text \<open>
  \<open>add_custom_rule\<close>, given what \<open>prompt_int\<close> returned for the pattern and the lines typed
  after it: what is printed during the call, the line of \<open>prompt_int\<close> included, and the
  game afterwards.
\<close>

definition add_custom_rule ::
  "(string \<Rightarrow> error + int) \<Rightarrow> rule_game \<Rightarrow> int option \<Rightarrow> stdin \<Rightarrow> error + (string list \<times> rule_game)" where
  "add_custom_rule to_int g choice s =
     (let out = [[CHR 0x0A] @ ''  Rule Patterns:'']
                @ map (\<lambda>k. ''    '' @ str_int k @ ''. '' @ fst (the (patterns to_int k))) [1 .. 6]
                @ prompt_int_printed choice in
      case (case choice of None \<Rightarrow> None | Some c \<Rightarrow> patterns to_int c) of
        None \<Rightarrow> Inr (out @ [''  '' @ ballot_x @ '' Invalid pattern.''], g)
      | Some (desc, builder) \<Rightarrow> custom_attempts builder [0, 1, 2] g s out)"

section \<open>Core loop\<close>

text \<open>
  \<open>n % d\<close> for an integer \<open>n\<close> and a parameter value: a text raises \<open>TypeError\<close>, zero raises
  \<open>ZeroDivisionError\<close>. Python's remainder takes the sign of the divisor, as \<open>mod\<close> on \<open>int\<close>
  does.
\<close>

fun py_mod :: "int \<Rightarrow> pval \<Rightarrow> error + int" where
  "py_mod n (PInt d) = (if d = 0 then Inl ZeroDivisionError else Inr (n mod d))"
| "py_mod n (PStr s) = Inl TypeError"

type_synonym rule_map = "pval \<rightharpoonup> rule_entry"

text \<open>
  The inner loop of the map construction, \<open>for n in range(range_start, range_end + 1)\<close>, for a
  rule that is neither a ban, a swap nor a replace.
\<close>

fun assign_in_range :: "rule_entry \<Rightarrow> int list \<Rightarrow> rule_map \<Rightarrow> error + rule_map" where
  "assign_in_range rule [] m = Inr m"
| "assign_in_range rule (n # ns) m =
     (if kind rule = ''divisible'' then
        (case params_get rule ''divisor'' of
           Inl e \<Rightarrow> Inl e
         | Inr d \<Rightarrow>
             (case py_mod n d of
                Inl e \<Rightarrow> Inl e
              | Inr r \<Rightarrow> assign_in_range rule ns (if r = 0 then m(PInt n \<mapsto> rule) else m)))
      else if kind rule = ''odd'' then
        assign_in_range rule ns (if n mod 2 \<noteq> 0 then m(PInt n \<mapsto> rule) else m)
      else if kind rule = ''even'' then
        assign_in_range rule ns (if n mod 2 = 0 then m(PInt n \<mapsto> rule) else m)
      else assign_in_range rule ns m)"

text \<open>The body of the loop over the active rules: one rule enters the map or the banned set.\<close>

definition register_rule ::
  "int \<Rightarrow> int \<Rightarrow> rule_entry \<Rightarrow> rule_map \<times> pval list \<Rightarrow> error + (rule_map \<times> pval list)" where
  "register_rule lo hi rule st =
     (case st of (m, bs) \<Rightarrow>
        if kind rule = ''ban'' then
          (case params_get rule ''num'' of
             Inl e \<Rightarrow> Inl e
           | Inr v \<Rightarrow> Inr (m, List.insert v bs))
        else if kind rule = ''swap'' then
          (case params_get rule ''a'' of
             Inl e \<Rightarrow> Inl e
           | Inr a \<Rightarrow>
               (case params_get rule ''b'' of
                  Inl e \<Rightarrow> Inl e
                | Inr b \<Rightarrow> Inr (m(a \<mapsto> rule, b \<mapsto> rule), bs)))
        else if kind rule = ''replace'' then
          (case params_get rule ''num'' of
             Inl e \<Rightarrow> Inl e
           | Inr v \<Rightarrow> Inr (m(v \<mapsto> rule), bs))
        else
          (case assign_in_range rule [lo .. hi] m of
             Inl e \<Rightarrow> Inl e
           | Inr m' \<Rightarrow> Inr (m', bs)))"

fun register_rules ::
  "int \<Rightarrow> int \<Rightarrow> rule_entry list \<Rightarrow> rule_map \<times> pval list \<Rightarrow> error + (rule_map \<times> pval list)" where
  "register_rules lo hi [] st = Inr st"
| "register_rules lo hi (rule # rules) st =
     (case register_rule lo hi rule st of
        Inl e \<Rightarrow> Inl e
      | Inr st' \<Rightarrow> register_rules lo hi rules st')"

text \<open>The map from numbers to their governing rule and the banned numbers of a game.\<close>

definition build_rule_map :: "rule_game \<Rightarrow> error + (rule_map \<times> pval list)" where
  "build_rule_map g =
     register_rules (range_start g) (range_end g) (active_rules g) (Map.empty, [])"

text \<open>\<open>while next_num in banned_numbers: next_num += 1\<close>.\<close>

function skip_banned :: "pval list \<Rightarrow> int \<Rightarrow> int" where
  "skip_banned bs next_num =
     (if PInt next_num \<in> set bs then skip_banned bs (next_num + 1) else next_num)"
  by pat_completeness auto
termination
proof (relation "measure (\<lambda>(bs, n). length (filter (\<lambda>v. case v of PInt k \<Rightarrow> n \<le> k | PStr t \<Rightarrow> False) bs))")
  show "wf (measure (\<lambda>(bs, n). length (filter (\<lambda>v. case v of PInt k \<Rightarrow> n \<le> k | PStr t \<Rightarrow> False) bs)))"
    by simp
next
  fix bs :: "pval list" and next_num :: int
  assume mem: "PInt next_num \<in> set bs"
  let ?P = "\<lambda>v. case v of PInt k \<Rightarrow> next_num \<le> k | PStr t \<Rightarrow> False"
  let ?Q = "\<lambda>v. case v of PInt k \<Rightarrow> next_num + 1 \<le> k | PStr t \<Rightarrow> False"
  have eq: "filter ?Q bs = filter ?Q (filter ?P bs)"
    by (auto intro!: filter_cong split: pval.splits)
  have "PInt next_num \<in> set (filter ?P bs)" using mem by simp
  moreover have "\<not> ?Q (PInt next_num)" by simp
  ultimately have "length (filter ?Q (filter ?P bs)) < length (filter ?P bs)"
    by (rule length_filter_less)
  with eq show "((bs, next_num + 1), (bs, next_num)) \<in>
      measure (\<lambda>(bs, n). length (filter (\<lambda>v. case v of PInt k \<Rightarrow> n \<le> k | PStr t \<Rightarrow> False) bs))"
    by simp
qed

declare skip_banned.simps [simp del]

text \<open>
  The expected answer for one number (the body of the loop over the range up to the
  player's move): the governing rule, if any, transforms a fresh value, the value is
  rendered, and a banned number takes the label of the next number that is not banned.
\<close>

definition expected :: "rule_map \<Rightarrow> pval list \<Rightarrow> int \<Rightarrow> error + string" where
  "expected m bs num =
     (let rv = RuleValue num;
          rv' = (case m (PInt num) of Some rule \<Rightarrow> fn rule rv | None \<Rightarrow> rv)
      in case render rv' of
           Inl e \<Rightarrow> Inl e
         | Inr s \<Rightarrow> Inr (if PInt num \<in> set bs then str_int (skip_banned bs (num + 1)) else s))"

text \<open>
  The loop over the range. \<open>moves\<close> are the player's answers, already stripped; when they run
  out, \<open>input\<close> raises \<open>EOFError\<close>. The result is what \<open>run_iteration\<close> returns from inside
  its \<open>try\<close> block. What \<open>run_iteration\<close> prints is left out: only its result is modelled.
\<close>

fun play :: "rule_map \<Rightarrow> pval list \<Rightarrow> int list \<Rightarrow> string list \<Rightarrow> error + bool" where
  "play m bs [] moves = Inr True"
| "play m bs (num # nums) moves =
     (case expected m bs num of
        Inl e \<Rightarrow> Inl e
      | Inr want \<Rightarrow>
          (case moves of
             [] \<Rightarrow> Inl EOFError
           | player_input # rest \<Rightarrow>
               if player_input \<noteq> want then Inr False else play m bs nums rest))"

text \<open>\<open>run_iteration\<close>: every exception is caught and ends the round with \<open>False\<close>.\<close>

definition run_iteration :: "rule_game \<Rightarrow> string list \<Rightarrow> bool" where
  "run_iteration g moves =
     (case build_rule_map g of
        Inl e \<Rightarrow> False
      | Inr (m, bs) \<Rightarrow>
          (case play m bs [range_start g .. range_end g] moves of
             Inl e \<Rightarrow> False
           | Inr ok \<Rightarrow> ok))"

text \<open>
  The expected answers of a whole round, number by number: what \<open>run_iteration\<close> compares the
  player's moves with when every move is right.
\<close>

fun expected_all :: "rule_map \<Rightarrow> pval list \<Rightarrow> int list \<Rightarrow> error + (int \<times> string) list" where
  "expected_all m bs [] = Inr []"
| "expected_all m bs (num # nums) =
     (case expected m bs num of
        Inl e \<Rightarrow> Inl e
      | Inr want \<Rightarrow>
          (case expected_all m bs nums of
             Inl e \<Rightarrow> Inl e
           | Inr rest \<Rightarrow> Inr ((num, want) # rest)))"

definition evaluate :: "rule_game \<Rightarrow> error + (int \<times> string) list" where
  "evaluate g =
     (case build_rule_map g of
        Inl e \<Rightarrow> Inl e
      | Inr (m, bs) \<Rightarrow> expected_all m bs [range_start g .. range_end g])"

section \<open>Governing rule, as the specification words it\<close>

text \<open>
  The specification (section 4.4, step 2) says which numbers a rule that is not a ban can
  affect: a swap its two sides, a replace its number, a divisible, odd or even rule every
  number of the configured range that matches its predicate. \<open>spec_governs\<close> is that
  relation, on the keys of the map; \<open>spec_governing_rule\<close> is the last rule in collection
  order that can affect a key. Both follow the specification, not the code, and are compared
  with the map the code builds.
\<close>

definition spec_governs :: "int \<Rightarrow> int \<Rightarrow> rule_entry \<Rightarrow> pval \<Rightarrow> bool" where
  "spec_governs lo hi r k =
     (if kind r = ''swap'' then
        map_of (params r) ''a'' = Some k \<or> map_of (params r) ''b'' = Some k
      else if kind r = ''replace'' then map_of (params r) ''num'' = Some k
      else if kind r = ''divisible'' then
        (\<exists>n\<in>set [lo .. hi]. k = PInt n \<and>
           (case map_of (params r) ''divisor'' of
              Some (PInt d) \<Rightarrow> d \<noteq> 0 \<and> n mod d = 0
            | _ \<Rightarrow> False))
      else if kind r = ''odd'' then (\<exists>n\<in>set [lo .. hi]. k = PInt n \<and> n mod 2 \<noteq> 0)
      else if kind r = ''even'' then (\<exists>n\<in>set [lo .. hi]. k = PInt n \<and> n mod 2 = 0)
      else False)"

definition spec_governing_rule :: "int \<Rightarrow> int \<Rightarrow> rule_entry list \<Rightarrow> pval \<Rightarrow> rule_entry option" where
  "spec_governing_rule lo hi rules k =
     (case filter (\<lambda>r. spec_governs lo hi r k) rules of
        [] \<Rightarrow> None
      | r # rs \<Rightarrow> Some (last (r # rs)))"

section \<open>Decimal strings\<close>

lemma str_nat_digit: "n < 10 \<Longrightarrow> str_nat n = [digit_char n]"
  by (simp add: str_nat.simps)

lemma str_nat_step: "10 \<le> n \<Longrightarrow> str_nat n = str_nat (n div 10) @ [digit_char (n mod 10)]"
  by (subst str_nat.simps) simp

lemma digit_char_cases:
  "d < 10 \<Longrightarrow> digit_char d = (if d = 0 then CHR ''0'' else if d = 1 then CHR ''1'' else if d = 2 then CHR ''2''
     else if d = 3 then CHR ''3'' else if d = 4 then CHR ''4'' else if d = 5 then CHR ''5''
     else if d = 6 then CHR ''6'' else if d = 7 then CHR ''7'' else if d = 8 then CHR ''8'' else CHR ''9'')"
  unfolding digit_char_def
  by (cases d rule: nat.exhaust; simp add: nth_Cons' )

lemma digit_char_inj: "d < 10 \<Longrightarrow> e < 10 \<Longrightarrow> digit_char d = digit_char e \<Longrightarrow> d = e"
  by (simp add: digit_char_cases split: if_splits) arith

lemma digit_char_not_minus: "d < 10 \<Longrightarrow> digit_char d \<noteq> CHR ''-''"
  by (simp add: digit_char_cases)

lemma str_nat_nonempty: "str_nat n \<noteq> []"
  by (subst str_nat.simps) simp

lemma str_nat_inj: "str_nat n = str_nat m \<Longrightarrow> n = m"
proof (induction n arbitrary: m rule: less_induct)
  case (less n)
  show ?case
  proof (cases "n < 10")
    case True
    show ?thesis
    proof (cases "m < 10")
      case True
      with \<open>n < 10\<close> less.prems show ?thesis
        by (simp add: str_nat_digit digit_char_inj)
    next
      case False
      with \<open>n < 10\<close> less.prems str_nat_nonempty [of "m div 10"] show ?thesis
        by (simp add: str_nat_digit str_nat_step)
    qed
  next
    case False
    show ?thesis
    proof (cases "m < 10")
      case True
      with \<open>\<not> n < 10\<close> less.prems str_nat_nonempty [of "n div 10"] show ?thesis
        by (simp add: str_nat_digit str_nat_step)
    next
      case False
      with \<open>\<not> n < 10\<close> less.prems
      have a: "str_nat (n div 10) = str_nat (m div 10)"
        and b: "digit_char (n mod 10) = digit_char (m mod 10)"
        by (simp_all add: str_nat_step)
      from \<open>\<not> n < 10\<close> have "n div 10 < n" by simp
      from less.IH [OF this a] have "n div 10 = m div 10" .
      moreover from b have "n mod 10 = m mod 10" by (simp add: digit_char_inj)
      ultimately show ?thesis by (metis div_mult_mod_eq)
    qed
  qed
qed

lemma str_nat_hd: "hd (str_nat n) \<noteq> CHR ''-''"
proof (induction n rule: less_induct)
  case (less n)
  show ?case
  proof (cases "n < 10")
    case True
    then show ?thesis by (simp add: str_nat_digit digit_char_not_minus)
  next
    case False
    then have "n div 10 < n" by simp
    from less.IH [OF this] False show ?thesis
      by (simp add: str_nat_step str_nat_nonempty)
  qed
qed

lemma str_int_inj: "str_int i = str_int j \<Longrightarrow> i = j"
proof -
  assume eq: "str_int i = str_int j"
  have neg: "str_nat n \<noteq> CHR ''-'' # xs" for n xs
    using str_nat_hd [of n] by (cases "str_nat n") auto
  show ?thesis
  proof (cases "i < 0")
    case True
    show ?thesis
    proof (cases "j < 0")
      case True
      with \<open>i < 0\<close> eq have "nat (- i) = nat (- j)" by (simp add: str_int_def str_nat_inj)
      with True \<open>i < 0\<close> show ?thesis by simp
    next
      case False
      with \<open>i < 0\<close> eq neg [of "nat j"] show ?thesis by (simp add: str_int_def) metis
    qed
  next
    case False
    show ?thesis
    proof (cases "j < 0")
      case True
      with \<open>\<not> i < 0\<close> eq neg [of "nat i"] show ?thesis by (simp add: str_int_def)
    next
      case False
      with \<open>\<not> i < 0\<close> eq have "nat i = nat j" by (simp add: str_int_def str_nat_inj)
      with False \<open>\<not> i < 0\<close> show ?thesis by simp
    qed
  qed
qed

lemma banned_message_inj: "banned_message n = banned_message m \<Longrightarrow> n = m"
  by (simp add: banned_message_def str_int_inj)


section \<open>Dictionary equality\<close>

text \<open>
  On dictionaries, that is on item lists with distinct keys, \<open>dict_eq\<close> holds exactly when the
  two lists are the same map from keys to values.
\<close>

lemma card_dom_map_of: "distinct (map fst d) \<Longrightarrow> card (dom (map_of d)) = length d"
proof -
  assume dist: "distinct (map fst d)"
  have "dom (map_of d) = set (map fst d)" by (simp add: dom_map_of_conv_image_fst)
  then have "card (dom (map_of d)) = card (set (map fst d))" by (rule arg_cong)
  also from dist have "card (set (map fst d)) = length (map fst d)" by (rule distinct_card)
  finally show ?thesis by simp
qed

lemma dict_eq_map_of:
  assumes d1: "distinct (map fst d1)" and d2: "distinct (map fst d2)"
  shows "dict_eq d1 d2 \<longleftrightarrow> map_of d1 = map_of d2"
proof
  assume eq: "dict_eq d1 d2"
  then have len: "length d1 = length d2"
    and sub: "\<And>k v. (k, v) \<in> set d1 \<Longrightarrow> map_of d2 k = Some v"
    by (auto simp: dict_eq_def list_all_iff)
  have le: "map_of d1 k = Some v \<Longrightarrow> map_of d2 k = Some v" for k v
    by (auto dest: map_of_SomeD sub)
  then have "dom (map_of d1) \<subseteq> dom (map_of d2)" by auto
  moreover have "card (dom (map_of d1)) = card (dom (map_of d2))"
    using len by (simp add: card_dom_map_of d1 d2)
  ultimately have dom: "dom (map_of d1) = dom (map_of d2)"
    by (simp add: card_subset_eq finite_dom_map_of)
  show "map_of d1 = map_of d2"
  proof
    fix k
    show "map_of d1 k = map_of d2 k"
    proof (cases "map_of d1 k")
      case None
      then have "k \<notin> dom (map_of d1)" by auto
      with dom have "map_of d2 k = None" by auto
      with None show ?thesis by simp
    next
      case (Some v)
      with le show ?thesis by simp
    qed
  qed
next
  assume eq: "map_of d1 = map_of d2"
  then have "card (dom (map_of d1)) = card (dom (map_of d2))" by simp
  then have "length d1 = length d2" by (simp add: card_dom_map_of d1 d2)
  moreover have "map_of d2 k = Some v" if "(k, v) \<in> set d1" for k v
    using that d1 eq by (metis map_of_is_SomeI)
  ultimately show "dict_eq d1 d2"
    by (auto simp: dict_eq_def list_all_iff)
qed

section \<open>Rendering\<close>

lemma join_concat: "join sep (x # xs) = x @ concat (map (\<lambda>y. sep @ y) xs)"
  by (induction xs arbitrary: x) simp_all

text \<open>
  Claim C3. For every value, \<open>render\<close> fails exactly when the banned flag is set, and then with
  the exception whose message holds the number of the value (two values that fail with the
  same exception have the same number). A value that is not banned renders as its tags
  separated by single spaces when there is a tag, and as the decimal string of its number when
  there is none.
\<close>

theorem render_banned_iff:
  "((\<exists>e. render rv = Inl e) \<longleftrightarrow> banned rv) \<and>
   (banned rv \<longrightarrow>
      render rv = Inl (Exception (banned_message (number rv))) \<and>
      (\<forall>rv'. render rv' = render rv \<longrightarrow> number rv' = number rv)) \<and>
   (\<not> banned rv \<and> tags rv \<noteq> [] \<longrightarrow>
      render rv = Inr (hd (tags rv) @ concat (map (\<lambda>t. '' '' @ t) (tl (tags rv))))) \<and>
   (\<not> banned rv \<and> tags rv = [] \<longrightarrow> render rv = Inr (str_int (number rv)))"
proof -
  have "number rv' = number rv" if "banned rv" and "render rv' = render rv" for rv'
    using that banned_message_inj [of "number rv'" "number rv"]
    by (simp add: render_def split: if_splits)
  moreover have "render rv = Inr (hd (tags rv) @ concat (map (\<lambda>t. '' '' @ t) (tl (tags rv))))"
    if "\<not> banned rv" and "tags rv \<noteq> []"
    using that by (cases "tags rv") (simp_all add: render_def join_concat)
  ultimately show ?thesis
    by (auto simp: render_def)
qed

theorem render_banned_iff_witness:
  "banned \<lparr>number = 4, tags = [], banned = True\<rparr> \<and>
   render \<lparr>number = 4, tags = [], banned = True\<rparr> = Inl (Exception (banned_message 4)) \<and>
   \<not> banned \<lparr>number = 3, tags = [''Fizz'', ''Odd''], banned = False\<rparr> \<and>
   render \<lparr>number = 3, tags = [''Fizz'', ''Odd''], banned = False\<rparr> = Inr ''Fizz Odd'' \<and>
   tags (RuleValue 7) = [] \<and>
   render (RuleValue 7) = Inr ''7''"
  using render_banned_iff [of "\<lparr>number = 4, tags = [], banned = True\<rparr>"]
    render_banned_iff [of "\<lparr>number = 3, tags = [''Fizz'', ''Odd''], banned = False\<rparr>"]
    render_banned_iff [of "RuleValue 7"]
  by (simp add: RuleValue_def str_int_def str_nat_digit digit_char_def)

section \<open>Rule factory: swap and divisible\<close>

text \<open>
  Claim C8. For distinct \<open>a\<close> and \<open>b\<close>, the transformation of \<open>swap(a, b)\<close> turns a fresh value
  for \<open>a\<close> into the fresh value for \<open>b\<close>, which renders as the decimal string of \<open>b\<close>; every
  application to a fresh value for \<open>a\<close> gives this same result, and the number of the result is
  not \<open>a\<close>: one substitution per application, without a second step from \<open>b\<close> back to \<open>a\<close>.
\<close>

theorem swap_single_substitution:
  "a \<noteq> b \<Longrightarrow>
     render (fn (swap a b) (RuleValue a)) = Inr (str_int b) \<and>
     fn (swap a b) (RuleValue a) = RuleValue b \<and>
     number (fn (swap a b) (RuleValue a)) \<noteq> a"
  by (simp add: swap_def RuleValue_def render_def)

theorem swap_single_substitution_witness:
  "(6::int) \<noteq> 9 \<and>
   render (fn (swap 6 9) (RuleValue 6)) = Inr ''9'' \<and>
   fn (swap 6 9) (RuleValue 6) = RuleValue 9 \<and>
   number (fn (swap 6 9) (RuleValue 6)) \<noteq> 6"
  using swap_single_substitution [of 6 9]
  by (simp add: RuleValue_def render_def str_int_def str_nat_digit digit_char_def)

lemma custom_divisible_zero:
  assumes "to_int line = Inr 0"
  shows "snd (the (patterns to_int 4)) (line # text # rest) = Inl (ValueError ''Divisor cannot be zero.'')"
    and "\<exists>out. add_custom_rule to_int g (Some 4) (line # text # rest) = Inr (out, g)"
  using assms
  by (simp_all add: patterns_def input_int_def input_def divisible_def add_custom_rule_def Let_def)

text \<open>
  Claim C7. \<open>divisible(0, text)\<close> fails with a \<open>ValueError\<close> when it is constructed. The one
  caller that can pass a zero divisor is the builder of pattern 4: when the player types a
  zero divisor, the builder fails with that error, and \<open>add_custom_rule\<close> returns with the game
  unchanged, so the rule is neither checked nor added. For a divisor that is not zero the
  constructor returns a rule of kind \<open>divisible\<close> whose transformation appends the text to the
  tags exactly when the number modulo the divisor is 0.
\<close>

theorem divisible_zero_fails:
  "divisible 0 text = Inl (ValueError ''Divisor cannot be zero.'') \<and>
   (\<forall>to_int g line rest.
      to_int line = Inr 0 \<longrightarrow>
        snd (the (patterns to_int 4)) (line # text # rest) = Inl (ValueError ''Divisor cannot be zero.'') \<and>
        (\<exists>out. add_custom_rule to_int g (Some 4) (line # text # rest) = Inr (out, g))) \<and>
   (d \<noteq> 0 \<longrightarrow>
      (\<exists>r. divisible d text = Inr r \<and> kind r = ''divisible'' \<and>
           (\<forall>rv. fn r rv = (if number rv mod d = 0 then tag rv text else rv)) \<and>
           (\<forall>rv. tags (fn r rv) = tags rv @ [text] \<longleftrightarrow> number rv mod d = 0)))"
proof -
  have "\<exists>r. divisible d text = Inr r \<and> kind r = ''divisible'' \<and>
           (\<forall>rv. fn r rv = (if number rv mod d = 0 then tag rv text else rv)) \<and>
           (\<forall>rv. tags (fn r rv) = tags rv @ [text] \<longleftrightarrow> number rv mod d = 0)" if "d \<noteq> 0"
    using that by (simp add: divisible_def tag_def)
  then show ?thesis
    using custom_divisible_zero by (simp add: divisible_def)
qed

theorem divisible_zero_fails_witness:
  "(3::int) \<noteq> 0 \<and>
   (\<exists>r. divisible 3 ''Fizz'' = Inr r \<and> kind r = ''divisible'' \<and>
        tags (fn r (RuleValue 9)) = [''Fizz''] \<and> tags (fn r (RuleValue 5)) = []) \<and>
   (\<lambda>s. Inr 0 :: error + int) ''0'' = Inr 0 \<and>
   (\<exists>out. add_custom_rule (\<lambda>s. Inr 0) new_game (Some 4) [''0'', ''Fizz''] = Inr (out, new_game))"
  using divisible_zero_fails [of "''Fizz''" 3]
  by (auto simp add: RuleValue_def tag_def)

section \<open>Conflict checker: properties\<close>

lemma factory_built_kinds:
  "factory_built r \<Longrightarrow>
     kind r \<in> {''swap'', ''replace'', ''ban'', ''divisible'', ''odd'', ''even''}"
  by (erule factory_built.cases)
     (auto simp: swap_def replace_def ban_def divisible_def odd_rule_def even_rule_def split: if_splits)

lemma factory_built_ban: "factory_built r \<Longrightarrow> kind r = ''ban'' \<Longrightarrow> \<exists>n. r = ban n"
  by (erule factory_built.cases)
     (auto simp: swap_def replace_def ban_def divisible_def odd_rule_def even_rule_def split: if_splits)

lemma factory_built_swap: "factory_built r \<Longrightarrow> kind r = ''swap'' \<Longrightarrow> \<exists>a b. r = swap a b"
  by (erule factory_built.cases)
     (auto simp: swap_def replace_def ban_def divisible_def odd_rule_def even_rule_def split: if_splits)

lemma factory_built_replace:
  "factory_built r \<Longrightarrow> kind r = ''replace'' \<Longrightarrow> \<exists>n t. r = replace n t"
  by (erule factory_built.cases)
     (auto simp: swap_def replace_def ban_def divisible_def odd_rule_def even_rule_def split: if_splits)

lemma kind_ban [simp]: "kind (ban n) = ''ban''"
  and kind_swap [simp]: "kind (swap a b) = ''swap''"
  and kind_replace [simp]: "kind (replace n t) = ''replace''"
  and kind_odd [simp]: "kind (odd_rule t) = ''odd''"
  and kind_even [simp]: "kind (even_rule t) = ''even''"
  by (simp_all add: ban_def swap_def replace_def odd_rule_def even_rule_def)

lemma params_get_factory [simp]:
  "params_get (ban n) ''num'' = Inr (PInt n)"
  "params_get (swap a b) ''a'' = Inr (PInt a)"
  "params_get (swap a b) ''b'' = Inr (PInt b)"
  "params_get (replace n t) ''num'' = Inr (PInt n)"
  by (simp_all add: params_get_def ban_def swap_def replace_def)

lemma ban_inject: "ban n = ban m \<Longrightarrow> n = m"
  by (drule arg_cong [where f = params]) (simp add: ban_def)

lemma banned_numbers_factory:
  "\<forall>r\<in>set rs. factory_built r \<Longrightarrow>
     \<exists>bs. banned_numbers rs = Inr bs \<and> (\<forall>v. v \<in> set bs \<longleftrightarrow> (\<exists>n. v = PInt n \<and> ban n \<in> set rs))"
proof (induction rs)
  case Nil
  then show ?case by simp
next
  case (Cons r rs)
  then obtain bs where bs: "banned_numbers rs = Inr bs"
    "\<forall>v. v \<in> set bs \<longleftrightarrow> (\<exists>n. v = PInt n \<and> ban n \<in> set rs)"
    by auto
  show ?case
  proof (cases "kind r = ''ban''")
    case True
    with Cons.prems obtain n where r: "r = ban n"
      using factory_built_ban by auto
    with bs show ?thesis by (auto dest: ban_inject)
  next
    case False
    then have "\<And>n. r \<noteq> ban n" by auto
    with False bs show ?thesis by auto
  qed
qed


lemma messages_nonempty [simp]:
  "duplicate_message e \<noteq> []"
  "replace_banned_message v \<noteq> []"
  "swap_banned_message v \<noteq> []"
  by (simp_all add: duplicate_message_def replace_banned_message_def swap_banned_message_def)

lemma try_add_conflict:
  "check (active_rules g) p = Inr (Some msg) \<Longrightarrow> msg \<noteq> [] \<Longrightarrow>
     try_add g p =
       Inr (False, [[CHR 0x0A] @ ''  '' @ warning_sign @ ''  Conflict detected: '' @ msg], g)"
  by (simp add: try_add_def)

lemma try_add_clean:
  "check (active_rules g) p = Inr None \<Longrightarrow>
     try_add g p =
       Inr (True, [''  '' @ check_mark @ '' Rule added: ['' @ description p @ '']''],
            g\<lparr>active_rules := active_rules g @ [p]\<rparr>)"
  by (simp add: try_add_def)

lemma find_duplicate_Some:
  "find_duplicate rs p = Some e \<Longrightarrow>
     e \<in> set rs \<and> kind e = kind p \<and> dict_eq (params e) (params p)"
  by (induction rs) (auto split: if_splits)

lemma find_duplicate_None:
  "find_duplicate rs p = None \<longleftrightarrow>
     (\<forall>e\<in>set rs. \<not> (kind e = kind p \<and> dict_eq (params e) (params p)))"
  by (induction rs) auto

lemma dict_eq_swap:
  "dict_eq (params (swap a' b')) (params (swap a b)) \<longleftrightarrow> a' = a \<and> b' = b"
  by (auto simp: dict_eq_def swap_def)

lemma find_duplicate_swap:
  assumes "\<forall>r\<in>set rs. factory_built r" and "swap a b \<notin> set rs"
  shows "find_duplicate rs (swap a b) = None"
proof -
  have "\<not> (kind e = kind (swap a b) \<and> dict_eq (params e) (params (swap a b)))" if "e \<in> set rs" for e
  proof
    assume h: "kind e = kind (swap a b) \<and> dict_eq (params e) (params (swap a b))"
    from that assms have "factory_built e" by blast
    with h obtain a' b' where "e = swap a' b'"
      using factory_built_swap [of e] by auto
    with h have "e = swap a b" by (simp add: dict_eq_swap)
    with that assms show False by simp
  qed
  then show ?thesis by (simp add: find_duplicate_None)
qed

lemma ban_neq [simp]: "ban n = ban m \<longleftrightarrow> n = m"
  using ban_inject by auto

lemma swap_neq_ban [simp]: "swap a b \<noteq> ban n"
proof
  assume "swap a b = ban n"
  then have "kind (swap a b) = kind (ban n)" by simp
  then show False by simp
qed

lemma dict_eq_factory_refl: "factory_built p \<Longrightarrow> dict_eq (params p) (params p)"
  by (erule factory_built.cases)
     (auto simp: dict_eq_def swap_def replace_def ban_def divisible_def odd_rule_def even_rule_def
           split: if_splits)

lemma try_add_True:
  "try_add g p = Inr (True, out, g') \<Longrightarrow> g' = g\<lparr>active_rules := active_rules g @ [p]\<rparr>"
  by (auto simp: try_add_def split: sum.splits if_splits)

lemma banned_numbers_total:
  "\<forall>r\<in>set rs. kind r = ''ban'' \<longrightarrow> map_of (params r) ''num'' \<noteq> None \<Longrightarrow>
     \<exists>bs. banned_numbers rs = Inr bs"
  by (induction rs) (auto simp: params_get_def)

lemma check_duplicate:
  assumes wf: "\<forall>r\<in>set active. kind r = ''ban'' \<longrightarrow> map_of (params r) ''num'' \<noteq> None"
    and dup: "\<exists>e\<in>set active. kind e = kind p \<and> dict_eq (params e) (params p)"
  shows "\<exists>e\<in>set active. kind e = kind p \<and> dict_eq (params e) (params p) \<and>
           check active p = Inr (Some (duplicate_message e))"
proof -
  from banned_numbers_total [OF wf] obtain bs where bs: "banned_numbers active = Inr bs"
    by blast
  from dup have "find_duplicate active p \<noteq> None"
    by (simp add: find_duplicate_None)
  then obtain e where e: "find_duplicate active p = Some e" by auto
  from find_duplicate_Some [OF e] e bs show ?thesis
    by (auto simp: check_def)
qed

lemma factory_built_num:
  "factory_built r \<Longrightarrow> kind r = ''ban'' \<Longrightarrow> map_of (params r) ''num'' \<noteq> None"
  using factory_built_ban [of r] by (auto simp: ban_def)

text \<open>
  Claim C4. Let the active collection hold only rules made by the constructors. If it holds
  a ban rule for \<open>n\<close>, then \<open>check\<close> rejects \<open>replace(n, text)\<close> with a conflict message (the
  duplicate message when the same replace rule is already active, the banned-target message
  otherwise) and \<open>try_add\<close> returns \<open>False\<close> and leaves the game as it is. If it holds a ban
  rule for \<open>a\<close> or for \<open>b\<close>, then \<open>swap(a, b)\<close> is rejected in the same way, the message naming
  the first banned side. A swap whose two sides are not banned, and that is not already
  active, passes the check and is appended.
\<close>

theorem banned_number_conflict:
  assumes fb: "\<forall>r\<in>set (active_rules g). factory_built r"
  shows
    "(ban n \<in> set (active_rules g) \<longrightarrow>
        check (active_rules g) (replace n text) =
          Inr (Some (case find_duplicate (active_rules g) (replace n text) of
                       Some e \<Rightarrow> duplicate_message e
                     | None \<Rightarrow> replace_banned_message (PInt n))) \<and>
        (\<exists>out. try_add g (replace n text) = Inr (False, out, g))) \<and>
     (ban a \<in> set (active_rules g) \<or> ban b \<in> set (active_rules g) \<longrightarrow>
        check (active_rules g) (swap a b) =
          Inr (Some (case find_duplicate (active_rules g) (swap a b) of
                       Some e \<Rightarrow> duplicate_message e
                     | None \<Rightarrow>
                         swap_banned_message
                           (PInt (if ban a \<in> set (active_rules g) then a else b)))) \<and>
        (\<exists>out. try_add g (swap a b) = Inr (False, out, g))) \<and>
     (ban a \<notin> set (active_rules g) \<and> ban b \<notin> set (active_rules g) \<and>
      swap a b \<notin> set (active_rules g) \<longrightarrow>
        check (active_rules g) (swap a b) = Inr None \<and>
        (\<exists>out. try_add g (swap a b) =
                 Inr (True, out, g\<lparr>active_rules := active_rules g @ [swap a b]\<rparr>)))"
proof -
  from banned_numbers_factory [OF fb] obtain bs where
    bs: "banned_numbers (active_rules g) = Inr bs"
    and mem: "\<And>v. v \<in> set bs \<longleftrightarrow> (\<exists>k. v = PInt k \<and> ban k \<in> set (active_rules g))"
    by blast
  have mem_int: "PInt k \<in> set bs \<longleftrightarrow> ban k \<in> set (active_rules g)" for k
    by (simp add: mem)
  have rep: "check (active_rules g) (replace n text) =
          Inr (Some (case find_duplicate (active_rules g) (replace n text) of
                       Some e \<Rightarrow> duplicate_message e
                     | None \<Rightarrow> replace_banned_message (PInt n)))"
    if "ban n \<in> set (active_rules g)"
    using that by (simp add: check_def bs mem_int split: option.splits)
  have sw: "check (active_rules g) (swap a b) =
          Inr (Some (case find_duplicate (active_rules g) (swap a b) of
                       Some e \<Rightarrow> duplicate_message e
                     | None \<Rightarrow>
                         swap_banned_message
                           (PInt (if ban a \<in> set (active_rules g) then a else b))))"
    if "ban a \<in> set (active_rules g) \<or> ban b \<in> set (active_rules g)"
    using that by (auto simp add: check_def check_swap_def bs mem_int split: option.splits)
  have ok: "check (active_rules g) (swap a b) = Inr None"
    if "ban a \<notin> set (active_rules g)" "ban b \<notin> set (active_rules g)"
      "swap a b \<notin> set (active_rules g)"
    using that find_duplicate_swap [OF fb, of a b]
    by (simp add: check_def check_swap_def bs mem_int)
  show ?thesis
  proof (intro conjI impI)
    assume h: "ban n \<in> set (active_rules g)"
    from rep [OF h] show "check (active_rules g) (replace n text) =
          Inr (Some (case find_duplicate (active_rules g) (replace n text) of
                       Some e \<Rightarrow> duplicate_message e
                     | None \<Rightarrow> replace_banned_message (PInt n)))" .
    from rep [OF h] show "\<exists>out. try_add g (replace n text) = Inr (False, out, g)"
      by (auto simp: try_add_conflict split: option.splits)
  next
    assume h: "ban a \<in> set (active_rules g) \<or> ban b \<in> set (active_rules g)"
    from sw [OF h] show "check (active_rules g) (swap a b) =
          Inr (Some (case find_duplicate (active_rules g) (swap a b) of
                       Some e \<Rightarrow> duplicate_message e
                     | None \<Rightarrow>
                         swap_banned_message
                           (PInt (if ban a \<in> set (active_rules g) then a else b))))" .
    from sw [OF h] show "\<exists>out. try_add g (swap a b) = Inr (False, out, g)"
      by (auto simp: try_add_conflict split: option.splits)
  next
    assume h: "ban a \<notin> set (active_rules g) \<and> ban b \<notin> set (active_rules g) \<and>
      swap a b \<notin> set (active_rules g)"
    then have c: "check (active_rules g) (swap a b) = Inr None" using ok by blast
    then show "check (active_rules g) (swap a b) = Inr None" .
    from c show "\<exists>out. try_add g (swap a b) =
                 Inr (True, out, g\<lparr>active_rules := active_rules g @ [swap a b]\<rparr>)"
      by (simp add: try_add_clean)
  qed
qed

theorem banned_number_conflict_witness:
  "factory_built (ban 6) \<and>
   ban 6 \<in> set (active_rules (new_game\<lparr>active_rules := [ban 6]\<rparr>)) \<and>
   check [ban 6] (replace 6 ''x'') = Inr (Some (replace_banned_message (PInt 6))) \<and>
   check [ban 6] (swap 6 9) = Inr (Some (swap_banned_message (PInt 6))) \<and>
   ban 5 \<notin> set [ban 6] \<and> ban 9 \<notin> set [ban 6] \<and> swap 5 9 \<notin> set [ban 6] \<and>
   check [ban 6] (swap 5 9) = Inr None"
proof -
  have fb: "\<forall>r\<in>set (active_rules (new_game\<lparr>active_rules := [ban 6]\<rparr>)). factory_built r"
    by (simp add: fb_ban)
  show ?thesis
    using fb banned_number_conflict [OF fb, of 6 "''x''" 6 9]
      banned_number_conflict [OF fb, of 6 "''x''" 5 9]
    by simp
qed

text \<open>
  Claim C5. Let the active collection be any list of rule entries whose ban rules have their
  \<open>num\<close> parameter, and let the candidate be any rule entry. If some active rule has the kind
  of the candidate and params equal to the candidate's, then \<open>check\<close> returns the message
  that quotes the description of such an active rule, and \<open>try_add\<close> prints it, returns
  \<open>False\<close> and leaves the game as it is. In particular a rule of the constructors that has
  just been added is rejected when it is added again.
\<close>

theorem duplicate_rejected:
  assumes wf: "\<forall>r\<in>set (active_rules g). kind r = ''ban'' \<longrightarrow> map_of (params r) ''num'' \<noteq> None"
  shows
    "((\<exists>e\<in>set (active_rules g). kind e = kind p \<and> dict_eq (params e) (params p)) \<longrightarrow>
        (\<exists>e\<in>set (active_rules g). kind e = kind p \<and> dict_eq (params e) (params p) \<and>
           check (active_rules g) p =
             Inr (Some (''An identical rule already exists '' @ arrow @ '' ['' @ description e @ '']'')) \<and>
           try_add g p =
             Inr (False,
                  [[CHR 0x0A] @ ''  '' @ warning_sign @ ''  Conflict detected: '' @
                     ''An identical rule already exists '' @ arrow @ '' ['' @ description e @ '']''],
                  g))) \<and>
     (factory_built p \<longrightarrow>
        (\<forall>out g'. try_add g p = Inr (True, out, g') \<longrightarrow>
           (\<exists>out'. try_add g' p = Inr (False, out', g'))))"
proof (intro conjI impI allI)
  assume "\<exists>e\<in>set (active_rules g). kind e = kind p \<and> dict_eq (params e) (params p)"
  from check_duplicate [OF wf this] obtain e where
    e: "e \<in> set (active_rules g)" "kind e = kind p" "dict_eq (params e) (params p)"
      "check (active_rules g) p = Inr (Some (duplicate_message e))"
    by blast
  from e(4) have "try_add g p =
      Inr (False, [[CHR 0x0A] @ ''  '' @ warning_sign @ ''  Conflict detected: '' @ duplicate_message e], g)"
    by (rule try_add_conflict) simp
  with e show "\<exists>e\<in>set (active_rules g). kind e = kind p \<and> dict_eq (params e) (params p) \<and>
           check (active_rules g) p =
             Inr (Some (''An identical rule already exists '' @ arrow @ '' ['' @ description e @ '']'')) \<and>
           try_add g p =
             Inr (False,
                  [[CHR 0x0A] @ ''  '' @ warning_sign @ ''  Conflict detected: '' @
                     ''An identical rule already exists '' @ arrow @ '' ['' @ description e @ '']''],
                  g)"
    by (auto simp: duplicate_message_def)
next
  fix out g'
  assume p: "factory_built p" and added: "try_add g p = Inr (True, out, g')"
  from try_add_True [OF added] have g': "g' = g\<lparr>active_rules := active_rules g @ [p]\<rparr>" .
  with wf p have wf': "\<forall>r\<in>set (active_rules g'). kind r = ''ban'' \<longrightarrow> map_of (params r) ''num'' \<noteq> None"
    by (auto dest: factory_built_num)
  from g' p have "\<exists>e\<in>set (active_rules g'). kind e = kind p \<and> dict_eq (params e) (params p)"
    by (auto simp: dict_eq_factory_refl)
  from check_duplicate [OF wf' this] obtain e where
    "check (active_rules g') p = Inr (Some (duplicate_message e))" by blast
  then have "try_add g' p =
      Inr (False, [[CHR 0x0A] @ ''  '' @ warning_sign @ ''  Conflict detected: '' @ duplicate_message e], g')"
    by (rule try_add_conflict) simp
  then show "\<exists>out'. try_add g' p = Inr (False, out', g')" by blast
qed

theorem duplicate_rejected_witness:
  "active_rules new_game = [] \<and>
   factory_built (ban 4) \<and>
   (\<exists>out. try_add new_game (ban 4) = Inr (True, out, new_game\<lparr>active_rules := [ban 4]\<rparr>)) \<and>
   (\<exists>out'. try_add (new_game\<lparr>active_rules := [ban 4]\<rparr>) (ban 4) =
             Inr (False, out', new_game\<lparr>active_rules := [ban 4]\<rparr>)) \<and>
   kind (swap 6 9) \<noteq> ''ban'' \<and>
   swap 6 9 \<in> set (active_rules (new_game\<lparr>active_rules := [swap 6 9]\<rparr>)) \<and>
   dict_eq (params (swap 6 9)) (params (swap 6 9)) \<and>
   check [swap 6 9] (swap 6 9) = Inr (Some (duplicate_message (swap 6 9)))"
proof -
  have wf0: "\<forall>r\<in>set (active_rules new_game). kind r = ''ban'' \<longrightarrow> map_of (params r) ''num'' \<noteq> None"
    by (simp add: new_game_def)
  have wf1: "\<forall>r\<in>set (active_rules (new_game\<lparr>active_rules := [swap 6 9]\<rparr>)).
      kind r = ''ban'' \<longrightarrow> map_of (params r) ''num'' \<noteq> None"
    by simp
  have added: "try_add new_game (ban 4) =
      Inr (True, [''  '' @ check_mark @ '' Rule added: ['' @ description (ban 4) @ '']''],
           new_game\<lparr>active_rules := [ban 4]\<rparr>)"
    by (simp add: try_add_def check_def new_game_def check_swap_def)
  show ?thesis
    using added duplicate_rejected [OF wf0, of "ban 4"]
      duplicate_rejected [OF wf1, of "swap 6 9"]
    by (simp add: fb_ban dict_eq_swap duplicate_message_def new_game_def)
qed

section \<open>Removing a rule\<close>


lemma prompt_int_prints:
  "prompt_int to_int s = Inr (choice, printed, rest) \<Longrightarrow> printed = prompt_int_printed choice"
  by (auto simp: prompt_int_def prompt_int_printed_def split: sum.splits error.splits prod.splits)

lemma prompt_int_not_integer:
  "to_int line = Inl (ValueError msg) \<Longrightarrow>
     prompt_int to_int (line # rest) =
       Inr (None, [''  '' @ ballot_x @ '' Please enter a valid integer.''], rest)"
  by (simp add: prompt_int_def input_def)

lemma prompt_int_integer:
  "to_int line = Inr i \<Longrightarrow> prompt_int to_int (line # rest) = Inr (Some i, [], rest)"
  by (simp add: prompt_int_def input_def)



section \<open>Evaluation: the rule map and the expected answers\<close>

lemma assign_in_range_divisible:
  assumes "kind r = ''divisible''" and "params_get r ''divisor'' = Inr (PInt d)" and "d \<noteq> 0"
  shows "assign_in_range r ns m =
           Inr (\<lambda>k. if \<exists>n\<in>set ns. k = PInt n \<and> n mod d = 0 then Some r else m k)"
  using assms
proof (induction ns arbitrary: m)
  case Nil
  then show ?case by simp
next
  case (Cons n ns)
  then show ?case by (auto simp: fun_eq_iff)
qed

lemma assign_in_range_odd:
  assumes "kind r = ''odd''"
  shows "assign_in_range r ns m =
           Inr (\<lambda>k. if \<exists>n\<in>set ns. k = PInt n \<and> n mod 2 \<noteq> 0 then Some r else m k)"
  using assms
proof (induction ns arbitrary: m)
  case Nil
  then show ?case by simp
next
  case (Cons n ns)
  then show ?case by (auto simp: fun_eq_iff)
qed

lemma assign_in_range_even:
  assumes "kind r = ''even''"
  shows "assign_in_range r ns m =
           Inr (\<lambda>k. if \<exists>n\<in>set ns. k = PInt n \<and> n mod 2 = 0 then Some r else m k)"
  using assms
proof (induction ns arbitrary: m)
  case Nil
  then show ?case by simp
next
  case (Cons n ns)
  then show ?case by (auto simp: fun_eq_iff)
qed

lemma register_rule_factory:
  assumes "factory_built r"
  shows "register_rule lo hi r (m, bs) =
           Inr (\<lambda>k. if spec_governs lo hi r k then Some r else m k,
                if kind r = ''ban'' then List.insert (the (map_of (params r) ''num'')) bs else bs)"
  using assms
proof (cases rule: factory_built.cases)
  case (fb_swap a b)
  then show ?thesis
    by (auto simp: register_rule_def spec_governs_def swap_def params_get_def fun_eq_iff)
next
  case (fb_replace n0 t0)
  then show ?thesis
    by (auto simp: register_rule_def spec_governs_def replace_def params_get_def fun_eq_iff)
next
  case (fb_ban n0)
  then show ?thesis
    by (auto simp: register_rule_def spec_governs_def ban_def params_get_def fun_eq_iff)
next
  case (fb_divisible divisor t0)
  then have d: "divisor \<noteq> 0"
    and r: "r = \<lparr>kind = ''divisible'',
         params = [(''divisor'', PInt divisor), (''text'', PStr t0)],
         description = ''Divisible by '' @ str_int divisor @ '' '' @ arrow @ '' '' @ [CHR 0x27] @ t0 @ [CHR 0x27],
         fn = (\<lambda>rv. if number rv mod divisor = 0 then tag rv t0 else rv)\<rparr>"
    by (auto simp: divisible_def split: if_splits)
  have k: "kind r = ''divisible''" and p: "params_get r ''divisor'' = Inr (PInt divisor)"
    by (simp_all add: r params_get_def)
  have g: "spec_governs lo hi r k \<longleftrightarrow> (\<exists>n\<in>set [lo .. hi]. k = PInt n \<and> n mod divisor = 0)" for k
    by (simp add: spec_governs_def r d)
  show ?thesis
    by (simp add: register_rule_def k assign_in_range_divisible [OF k p d] g)
next
  case (fb_odd t0)
  then have k: "kind r = ''odd''" by (simp add: odd_rule_def)
  then show ?thesis
    by (simp add: register_rule_def assign_in_range_odd [OF k] spec_governs_def)
next
  case (fb_even t0)
  then have k: "kind r = ''even''" by (simp add: even_rule_def)
  then show ?thesis
    by (simp add: register_rule_def assign_in_range_even [OF k] spec_governs_def)
qed


lemma spec_governing_rule_Nil [simp]: "spec_governing_rule lo hi [] k = None"
  by (simp add: spec_governing_rule_def)

lemma spec_governing_rule_Cons:
  "spec_governing_rule lo hi (r # rs) k =
     (case spec_governing_rule lo hi rs k of
        None \<Rightarrow> (if spec_governs lo hi r k then Some r else None)
      | Some x \<Rightarrow> Some x)"
  by (simp add: spec_governing_rule_def split: list.splits)

lemma spec_governing_rule_Some:
  "spec_governing_rule lo hi rs k = Some r \<Longrightarrow> r \<in> set rs \<and> spec_governs lo hi r k"
proof -
  assume h: "spec_governing_rule lo hi rs k = Some r"
  let ?xs = "filter (\<lambda>r. spec_governs lo hi r k) rs"
  from h have ne: "?xs \<noteq> []" and r: "r = last ?xs"
    by (auto simp: spec_governing_rule_def split: list.splits)
  from ne have "last ?xs \<in> set ?xs" by (rule last_in_set)
  with r show ?thesis by simp
qed

lemma spec_governs_not_ban: "spec_governs lo hi r k \<Longrightarrow> kind r \<noteq> ''ban''"
  by (auto simp: spec_governs_def split: if_splits)

lemma factory_ban_num:
  "factory_built r \<Longrightarrow> kind r = ''ban'' \<Longrightarrow> \<exists>n. r = ban n \<and> map_of (params r) ''num'' = Some (PInt n)"
  using factory_built_ban [of r] by (auto simp: ban_def)

lemma register_rules_factory:
  assumes "\<forall>r\<in>set rs. factory_built r"
  shows "\<exists>m' bs'. register_rules lo hi rs (m, bs) = Inr (m', bs') \<and>
          (\<forall>k. m' k = (case spec_governing_rule lo hi rs k of None \<Rightarrow> m k | Some r \<Rightarrow> Some r)) \<and>
          (\<forall>v. v \<in> set bs' \<longleftrightarrow> v \<in> set bs \<or> (\<exists>n. v = PInt n \<and> ban n \<in> set rs))"
  using assms
proof (induction rs arbitrary: m bs)
  case Nil
  then show ?case by simp
next
  case (Cons r rs)
  then have fr: "factory_built r" and frs: "\<forall>r\<in>set rs. factory_built r" by simp_all
  let ?m1 = "\<lambda>k. if spec_governs lo hi r k then Some r else m k"
  let ?bs1 = "if kind r = ''ban'' then List.insert (the (map_of (params r) ''num'')) bs else bs"
  have step: "register_rule lo hi r (m, bs) = Inr (?m1, ?bs1)"
    by (rule register_rule_factory [OF fr])
  from Cons.IH [OF frs, of ?m1 ?bs1] obtain m' bs' where
    run: "register_rules lo hi rs (?m1, ?bs1) = Inr (m', bs')"
    and map: "\<forall>k. m' k = (case spec_governing_rule lo hi rs k of None \<Rightarrow> ?m1 k | Some r \<Rightarrow> Some r)"
    and ban: "\<forall>v. v \<in> set bs' \<longleftrightarrow> v \<in> set ?bs1 \<or> (\<exists>n. v = PInt n \<and> ban n \<in> set rs)"
    by blast
  have bs1: "v \<in> set ?bs1 \<longleftrightarrow> v \<in> set bs \<or> (\<exists>n. v = PInt n \<and> ban n = r)" for v
  proof (cases "kind r = ''ban''")
    case True
    with factory_ban_num [OF fr] obtain n where "r = ban n" "map_of (params r) ''num'' = Some (PInt n)"
      by blast
    with True show ?thesis by auto
  next
    case False
    then have "\<And>n. ban n \<noteq> r" by auto
    with False show ?thesis by simp
  qed
  have "register_rules lo hi (r # rs) (m, bs) = Inr (m', bs')"
    using step run by simp
  moreover have "\<forall>k. m' k = (case spec_governing_rule lo hi (r # rs) k of None \<Rightarrow> m k | Some r \<Rightarrow> Some r)"
    using map by (simp add: spec_governing_rule_Cons split: option.splits)
  moreover have "\<forall>v. v \<in> set bs' \<longleftrightarrow> v \<in> set bs \<or> (\<exists>n. v = PInt n \<and> ban n \<in> set (r # rs))"
    using ban bs1 by auto
  ultimately show ?case by blast
qed

lemma build_rule_map_factory:
  assumes "\<forall>r\<in>set (active_rules g). factory_built r"
  shows "\<exists>bs. build_rule_map g =
            Inr (spec_governing_rule (range_start g) (range_end g) (active_rules g), bs) \<and>
          (\<forall>n. PInt n \<in> set bs \<longleftrightarrow> ban n \<in> set (active_rules g))"
proof -
  from register_rules_factory [OF assms, of "range_start g" "range_end g" Map.empty "[]"]
  obtain m' bs' where
    run: "register_rules (range_start g) (range_end g) (active_rules g) (Map.empty, []) = Inr (m', bs')"
    and map: "\<forall>k. m' k = (case spec_governing_rule (range_start g) (range_end g) (active_rules g) k of
                             None \<Rightarrow> None | Some r \<Rightarrow> Some r)"
    and ban: "\<forall>v. v \<in> set bs' \<longleftrightarrow> v \<in> set [] \<or> (\<exists>n. v = PInt n \<and> ban n \<in> set (active_rules g))"
    by blast
  from map have "m' = spec_governing_rule (range_start g) (range_end g) (active_rules g)"
    by (auto simp: fun_eq_iff split: option.splits)
  with run ban show ?thesis by (auto simp: build_rule_map_def)
qed

lemma fn_keeps_banned:
  "factory_built r \<Longrightarrow> kind r \<noteq> ''ban'' \<Longrightarrow> banned (fn r rv) = banned rv"
  by (erule factory_built.cases)
     (auto simp: swap_def replace_def ban_def divisible_def odd_rule_def even_rule_def tag_def
           split: if_splits)

lemma expected_factory:
  assumes fb: "\<forall>r\<in>set rs. factory_built r"
  shows "\<exists>s. expected (spec_governing_rule lo hi rs) bs num = Inr s"
proof (cases "spec_governing_rule lo hi rs (PInt num)")
  case None
  then show ?thesis by (simp add: expected_def render_def RuleValue_def)
next
  case (Some r)
  from spec_governing_rule_Some [OF Some] fb have "factory_built r" "kind r \<noteq> ''ban''"
    by (auto dest: spec_governs_not_ban)
  then have "banned (fn r (RuleValue num)) = False"
    by (simp add: fn_keeps_banned RuleValue_def)
  with Some show ?thesis by (simp add: expected_def render_def Let_def)
qed

lemma expected_all_total:
  assumes "\<forall>n\<in>set ns. \<exists>s. expected m bs n = Inr s"
  shows "expected_all m bs ns = Inr (map (\<lambda>n. (n, projr (expected m bs n))) ns)"
  using assms by (induction ns) auto

lemma map_of_expected:
  "n \<in> set ns \<Longrightarrow> map_of (map (\<lambda>n. (n, f n)) ns) n = Some (f n)"
  by (induction ns) auto

lemma skip_banned_spec:
  "n \<le> skip_banned bs n \<and> PInt (skip_banned bs n) \<notin> set bs \<and>
   (\<forall>k. n \<le> k \<and> k < skip_banned bs n \<longrightarrow> PInt k \<in> set bs)"
proof (induction bs n rule: skip_banned.induct)
  case (1 bs next_num)
  show ?case
  proof (cases "PInt next_num \<in> set bs")
    case True
    with "1.IH" have ih: "next_num + 1 \<le> skip_banned bs (next_num + 1)"
      "PInt (skip_banned bs (next_num + 1)) \<notin> set bs"
      "\<forall>k. next_num + 1 \<le> k \<and> k < skip_banned bs (next_num + 1) \<longrightarrow> PInt k \<in> set bs"
      by simp_all
    from True have eq: "skip_banned bs next_num = skip_banned bs (next_num + 1)"
      by (subst skip_banned.simps) simp
    have "PInt k \<in> set bs" if "next_num \<le> k" "k < skip_banned bs (next_num + 1)" for k
    proof (cases "k = next_num")
      case True
      with \<open>PInt next_num \<in> set bs\<close> show ?thesis by simp
    next
      case False
      with that ih(3) show ?thesis by simp
    qed
    with ih eq show ?thesis by auto
  next
    case False
    then have "skip_banned bs next_num = next_num"
      by (subst skip_banned.simps) simp
    with False show ?thesis by auto
  qed
qed

lemma expected_banned:
  "PInt n \<in> set bs \<Longrightarrow> expected m bs n = Inr s \<Longrightarrow> s = str_int (skip_banned bs (n + 1))"
  by (auto simp: expected_def Let_def split: sum.splits)

lemma expected_plain:
  "PInt n \<notin> set bs \<Longrightarrow>
     expected m bs n =
       render (case m (PInt n) of Some rule \<Rightarrow> fn rule (RuleValue n) | None \<Rightarrow> RuleValue n)"
  by (auto simp: expected_def Let_def split: sum.splits)

lemma evaluate_factory:
  assumes fb: "\<forall>r\<in>set (active_rules g). factory_built r"
  shows "\<exists>res bs. evaluate g = Inr res \<and>
           build_rule_map g =
             Inr (spec_governing_rule (range_start g) (range_end g) (active_rules g), bs) \<and>
           (\<forall>n. PInt n \<in> set bs \<longleftrightarrow> ban n \<in> set (active_rules g)) \<and>
           map fst res = [range_start g .. range_end g] \<and>
           (\<forall>n. range_start g \<le> n \<and> n \<le> range_end g \<longrightarrow>
              (\<exists>s. map_of res n = Some s \<and>
                   expected (spec_governing_rule (range_start g) (range_end g) (active_rules g))
                     bs n = Inr s))"
proof -
  let ?m = "spec_governing_rule (range_start g) (range_end g) (active_rules g)"
  let ?ns = "[range_start g .. range_end g]"
  from build_rule_map_factory [OF fb] obtain bs where
    b: "build_rule_map g = Inr (?m, bs)"
    and mem: "\<forall>n. PInt n \<in> set bs \<longleftrightarrow> ban n \<in> set (active_rules g)"
    by blast
  let ?res = "map (\<lambda>n. (n, projr (expected ?m bs n))) ?ns"
  have tot: "\<exists>s. expected ?m bs n = Inr s" for n
    by (rule expected_factory [OF fb])
  then have all: "expected_all ?m bs ?ns = Inr ?res"
    by (intro expected_all_total) blast
  with b have ev: "evaluate g = Inr ?res" by (simp add: evaluate_def)
  have keys: "map fst ?res = ?ns" by (simp add: comp_def)
  have look: "\<exists>s. map_of ?res n = Some s \<and> expected ?m bs n = Inr s"
    if "range_start g \<le> n \<and> n \<le> range_end g" for n
  proof -
    from that have "n \<in> set ?ns" by simp
    then have "map_of ?res n = Some (projr (expected ?m bs n))"
      by (rule map_of_expected)
    moreover from tot [of n] obtain s where "expected ?m bs n = Inr s" by blast
    ultimately show ?thesis by simp
  qed
  from ev b mem keys look show ?thesis by blast
qed


lemma fizz_built: "factory_built (projr (divisible 3 ''Fizz''))"
  by (rule fb_divisible [of 3 "''Fizz''"]) (simp add: divisible_def)

lemma play_expected_all:
  "expected_all m bs ns = Inr res \<Longrightarrow> play m bs ns (map snd res @ extra) = Inr True"
proof (induction ns arbitrary: res)
  case Nil
  then show ?case by simp
next
  case (Cons n ns)
  then show ?case by (auto split: sum.splits)
qed

text \<open>
  The expected answers of \<open>evaluate\<close> are the moves that win the round: when the player
  types them in order, \<open>run_iteration\<close> returns \<open>True\<close>.
\<close>

lemma run_iteration_evaluate:
  "evaluate g = Inr res \<Longrightarrow> run_iteration g (map snd res @ extra) = True"
  by (auto simp: evaluate_def run_iteration_def play_expected_all split: sum.splits)

text \<open>Conversely, a round is won only by the expected answers of \<open>evaluate\<close>.\<close>

lemma play_True:
  "play m bs ns moves = Inr True \<Longrightarrow>
     \<exists>res. expected_all m bs ns = Inr res \<and> take (length ns) moves = map snd res"
proof (induction ns arbitrary: moves)
  case Nil
  then show ?case by simp
next
  case (Cons n ns)
  from Cons.prems obtain want where w: "expected m bs n = Inr want"
    by (auto split: sum.splits)
  with Cons.prems obtain rest where mv: "moves = want # rest" and p: "play m bs ns rest = Inr True"
    by (auto split: list.splits if_splits)
  from Cons.IH [OF p] obtain res where "expected_all m bs ns = Inr res"
    "take (length ns) rest = map snd res" by blast
  with w mv show ?case by simp
qed

lemma run_iteration_True:
  "run_iteration g moves = True \<Longrightarrow>
     \<exists>res. evaluate g = Inr res \<and> take (length res) moves = map snd res"
proof -
  assume h: "run_iteration g moves = True"
  then obtain m bs where b: "build_rule_map g = Inr (m, bs)"
    and p: "play m bs [range_start g .. range_end g] moves = Inr True"
    by (cases "build_rule_map g"; cases "play (fst (projr (build_rule_map g)))
          (snd (projr (build_rule_map g))) [range_start g .. range_end g] moves")
       (auto simp: run_iteration_def)
  from play_True [OF p] obtain res where
    e: "expected_all m bs [range_start g .. range_end g] = Inr res"
    and t: "take (length [range_start g .. range_end g]) moves = map snd res"
    by blast
  from t have "length res \<le> length [range_start g .. range_end g]"
    by (metis length_map length_take min.cobounded2)
  moreover from t have "take (length res) (take (length [range_start g .. range_end g]) moves) = map snd res"
    by (metis length_map take_all order_refl)
  ultimately have "take (length res) moves = map snd res"
    by (simp add: min_def)
  with b e show ?thesis by (simp add: evaluate_def)
qed

section \<open>Precedence\<close>

text \<open>
  Claim C1, as stated, fails on the code. With the active collection
  \<open>[swap(6,9), divisible(3,"Fizz")]\<close> in that order and the range 1 to 9, the expected answer
  for 6 is \<open>Fizz\<close>, not \<open>9\<close>: the divisible rule is the last rule that can affect 6.
\<close>

theorem precedence_example_fails:
  "evaluate \<lparr>active_rules = [swap 6 9, projr (divisible 3 ''Fizz'')],
             range_start = 1, range_end = 9\<rparr> =
     Inr [(1, ''1''), (2, ''2''), (3, ''Fizz''), (4, ''4''), (5, ''5''),
          (6, ''Fizz''), (7, ''7''), (8, ''8''), (9, ''Fizz'')] \<and>
   \<not> (\<exists>res. evaluate \<lparr>active_rules = [swap 6 9, projr (divisible 3 ''Fizz'')],
                        range_start = 1, range_end = 9\<rparr> = Inr res \<and>
             map_of res 6 = Some ''9'')"
proof -
  have e: "evaluate \<lparr>active_rules = [swap 6 9, projr (divisible 3 ''Fizz'')],
             range_start = 1, range_end = 9\<rparr> =
     Inr [(1, ''1''), (2, ''2''), (3, ''Fizz''), (4, ''4''), (5, ''5''),
          (6, ''Fizz''), (7, ''7''), (8, ''8''), (9, ''Fizz'')]"
    by code_simp
  then show ?thesis by simp
qed

text \<open>
  Claim C1, amended. Precedence is last-writer-wins per number, over insertion order: for a
  collection of rules made by the constructors, the map built by \<open>run_iteration\<close> sends every
  key to the last rule in collection order that can affect it (a swap its two sides, a
  replace its number, a divisible, odd or even rule the matching numbers of the range), and
  the expected answer of a number of the range that is not banned is the rendering of that
  rule's transformation of a fresh value, or the decimal string of the number when no rule
  can affect it. With \<open>[swap(6,9), divisible(3,"Fizz")]\<close> and the range 1 to 9 the answer for 6
  is \<open>Fizz\<close>; with the two rules in the other order it is \<open>9\<close>.
\<close>

theorem last_writer_wins:
  "((\<forall>r\<in>set (active_rules g). factory_built r) \<longrightarrow>
      (\<exists>res bs. evaluate g = Inr res \<and>
         build_rule_map g =
           Inr (spec_governing_rule (range_start g) (range_end g) (active_rules g), bs) \<and>
         (\<forall>n. range_start g \<le> n \<and> n \<le> range_end g \<and> ban n \<notin> set (active_rules g) \<longrightarrow>
            (\<exists>s. map_of res n = Some s \<and>
               (case spec_governing_rule (range_start g) (range_end g) (active_rules g) (PInt n) of
                  None \<Rightarrow> s = str_int n
                | Some r \<Rightarrow> render (fn r (RuleValue n)) = Inr s))))) \<and>
   (\<exists>res. evaluate \<lparr>active_rules = [swap 6 9, projr (divisible 3 ''Fizz'')],
                     range_start = 1, range_end = 9\<rparr> = Inr res \<and>
      map_of res 6 = Some ''Fizz'') \<and>
   (\<exists>res. evaluate \<lparr>active_rules = [projr (divisible 3 ''Fizz''), swap 6 9],
                     range_start = 1, range_end = 9\<rparr> = Inr res \<and>
      map_of res 6 = Some ''9'')"
proof (intro conjI impI)
  assume fb: "\<forall>r\<in>set (active_rules g). factory_built r"
  let ?m = "spec_governing_rule (range_start g) (range_end g) (active_rules g)"
  from evaluate_factory [OF fb] obtain res bs where
    ev: "evaluate g = Inr res" and b: "build_rule_map g = Inr (?m, bs)"
    and mem: "\<forall>n. PInt n \<in> set bs \<longleftrightarrow> ban n \<in> set (active_rules g)"
    and look: "\<forall>n. range_start g \<le> n \<and> n \<le> range_end g \<longrightarrow>
              (\<exists>s. map_of res n = Some s \<and> expected ?m bs n = Inr s)"
    by blast
  have "\<exists>s. map_of res n = Some s \<and>
               (case ?m (PInt n) of None \<Rightarrow> s = str_int n
                | Some r \<Rightarrow> render (fn r (RuleValue n)) = Inr s)"
    if h: "range_start g \<le> n \<and> n \<le> range_end g \<and> ban n \<notin> set (active_rules g)" for n
  proof -
    from look h obtain s where s: "map_of res n = Some s" "expected ?m bs n = Inr s" by blast
    from h mem have "PInt n \<notin> set bs" by simp
    from expected_plain [OF this, of ?m] s(2)
    have "render (case ?m (PInt n) of Some rule \<Rightarrow> fn rule (RuleValue n) | None \<Rightarrow> RuleValue n) = Inr s"
      by simp
    then have "case ?m (PInt n) of None \<Rightarrow> s = str_int n
                | Some r \<Rightarrow> render (fn r (RuleValue n)) = Inr s"
      by (auto simp: render_def RuleValue_def split: option.splits)
    with s(1) show ?thesis by blast
  qed
  with ev b show "\<exists>res bs. evaluate g = Inr res \<and> build_rule_map g = Inr (?m, bs) \<and>
         (\<forall>n. range_start g \<le> n \<and> n \<le> range_end g \<and> ban n \<notin> set (active_rules g) \<longrightarrow>
            (\<exists>s. map_of res n = Some s \<and>
               (case ?m (PInt n) of None \<Rightarrow> s = str_int n
                | Some r \<Rightarrow> render (fn r (RuleValue n)) = Inr s)))"
    by blast
next
  have "evaluate \<lparr>active_rules = [swap 6 9, projr (divisible 3 ''Fizz'')],
             range_start = 1, range_end = 9\<rparr> =
     Inr [(1, ''1''), (2, ''2''), (3, ''Fizz''), (4, ''4''), (5, ''5''),
          (6, ''Fizz''), (7, ''7''), (8, ''8''), (9, ''Fizz'')]"
    by code_simp
  then show "\<exists>res. evaluate \<lparr>active_rules = [swap 6 9, projr (divisible 3 ''Fizz'')],
                     range_start = 1, range_end = 9\<rparr> = Inr res \<and>
      map_of res 6 = Some ''Fizz''"
    by simp
next
  have "evaluate \<lparr>active_rules = [projr (divisible 3 ''Fizz''), swap 6 9],
             range_start = 1, range_end = 9\<rparr> =
     Inr [(1, ''1''), (2, ''2''), (3, ''Fizz''), (4, ''4''), (5, ''5''),
          (6, ''9''), (7, ''7''), (8, ''8''), (9, ''6'')]"
    by code_simp
  then show "\<exists>res. evaluate \<lparr>active_rules = [projr (divisible 3 ''Fizz''), swap 6 9],
                     range_start = 1, range_end = 9\<rparr> = Inr res \<and>
      map_of res 6 = Some ''9''"
    by simp
qed

theorem last_writer_wins_witness:
  "factory_built (swap 6 9) \<and> factory_built (projr (divisible 3 ''Fizz'')) \<and>
   spec_governing_rule 1 9 [swap 6 9, projr (divisible 3 ''Fizz'')] (PInt 6) =
     Some (projr (divisible 3 ''Fizz'')) \<and>
   spec_governing_rule 1 9 [projr (divisible 3 ''Fizz''), swap 6 9] (PInt 6) = Some (swap 6 9) \<and>
   (\<exists>res bs. evaluate \<lparr>active_rules = [swap 6 9, projr (divisible 3 ''Fizz'')],
                        range_start = 1, range_end = 9\<rparr> = Inr res \<and>
      build_rule_map \<lparr>active_rules = [swap 6 9, projr (divisible 3 ''Fizz'')],
                      range_start = 1, range_end = 9\<rparr> =
        Inr (spec_governing_rule 1 9 [swap 6 9, projr (divisible 3 ''Fizz'')], bs))"
proof -
  have fb: "factory_built (swap 6 9)" "factory_built (projr (divisible 3 ''Fizz''))"
    by (rule factory_built.intros fizz_built)+
  have g1: "spec_governing_rule 1 9 [swap 6 9, projr (divisible 3 ''Fizz'')] (PInt 6) =
     Some (projr (divisible 3 ''Fizz''))"
    by (simp add: spec_governing_rule_def spec_governs_def swap_def divisible_def)
  have g2: "spec_governing_rule 1 9 [projr (divisible 3 ''Fizz''), swap 6 9] (PInt 6) = Some (swap 6 9)"
    by (simp add: spec_governing_rule_def spec_governs_def swap_def divisible_def)
  from fb last_writer_wins
    [of "\<lparr>active_rules = [swap 6 9, projr (divisible 3 ''Fizz'')], range_start = 1, range_end = 9\<rparr>"]
  have "\<exists>res bs. evaluate \<lparr>active_rules = [swap 6 9, projr (divisible 3 ''Fizz'')],
                        range_start = 1, range_end = 9\<rparr> = Inr res \<and>
      build_rule_map \<lparr>active_rules = [swap 6 9, projr (divisible 3 ''Fizz'')],
                      range_start = 1, range_end = 9\<rparr> =
        Inr (spec_governing_rule 1 9 [swap 6 9, projr (divisible 3 ''Fizz'')], bs)"
    by auto
  with fb g1 g2 show ?thesis by simp
qed

section \<open>Ban cascade\<close>

text \<open>
  Claim C2. For a collection of rules made by the constructors and a number \<open>n\<close> of the range
  that an active ban rule targets, the expected answer for \<open>n\<close> is the decimal string of the
  least number above \<open>n\<close> that no ban rule targets, whatever rule governs \<open>n\<close> in the map. With
  the range 1 to 10 and the single rule \<open>ban(4)\<close>, the answers for 4, 5 and 3 are \<open>5\<close>, \<open>5\<close>
  and \<open>3\<close>.
\<close>

theorem ban_cascade:
  "((\<forall>r\<in>set (active_rules g). factory_built r) \<and>
    range_start g \<le> n \<and> n \<le> range_end g \<and> ban n \<in> set (active_rules g) \<longrightarrow>
      (\<exists>res m. evaluate g = Inr res \<and> map_of res n = Some (str_int m) \<and>
         n < m \<and> ban m \<notin> set (active_rules g) \<and>
         (\<forall>k. n < k \<and> k < m \<longrightarrow> ban k \<in> set (active_rules g)))) \<and>
   (\<exists>res. evaluate \<lparr>active_rules = [ban 4], range_start = 1, range_end = 10\<rparr> = Inr res \<and>
      map_of res 4 = Some ''5'' \<and> map_of res 5 = Some ''5'' \<and> map_of res 3 = Some ''3'')"
proof (intro conjI impI)
  assume h: "(\<forall>r\<in>set (active_rules g). factory_built r) \<and>
    range_start g \<le> n \<and> n \<le> range_end g \<and> ban n \<in> set (active_rules g)"
  then have fb: "\<forall>r\<in>set (active_rules g). factory_built r" by simp
  let ?m = "spec_governing_rule (range_start g) (range_end g) (active_rules g)"
  from evaluate_factory [OF fb] obtain res bs where
    ev: "evaluate g = Inr res"
    and mem: "\<forall>n. PInt n \<in> set bs \<longleftrightarrow> ban n \<in> set (active_rules g)"
    and look: "\<forall>n. range_start g \<le> n \<and> n \<le> range_end g \<longrightarrow>
              (\<exists>s. map_of res n = Some s \<and> expected ?m bs n = Inr s)"
    by blast
  from look h obtain s where s: "map_of res n = Some s" "expected ?m bs n = Inr s" by blast
  from h mem have "PInt n \<in> set bs" by simp
  from expected_banned [OF this s(2)] have s': "s = str_int (skip_banned bs (n + 1))" .
  from skip_banned_spec [of "n + 1" bs] mem
  have "n < skip_banned bs (n + 1)" "ban (skip_banned bs (n + 1)) \<notin> set (active_rules g)"
    "\<forall>k. n < k \<and> k < skip_banned bs (n + 1) \<longrightarrow> ban k \<in> set (active_rules g)"
    by auto
  with ev s(1) s' show "\<exists>res m. evaluate g = Inr res \<and> map_of res n = Some (str_int m) \<and>
         n < m \<and> ban m \<notin> set (active_rules g) \<and>
         (\<forall>k. n < k \<and> k < m \<longrightarrow> ban k \<in> set (active_rules g))"
    by blast
next
  have "evaluate \<lparr>active_rules = [ban 4], range_start = 1, range_end = 10\<rparr> =
    Inr [(1, ''1''), (2, ''2''), (3, ''3''), (4, ''5''), (5, ''5''),
         (6, ''6''), (7, ''7''), (8, ''8''), (9, ''9''), (10, ''10'')]"
    by code_simp
  then show "\<exists>res. evaluate \<lparr>active_rules = [ban 4], range_start = 1, range_end = 10\<rparr> = Inr res \<and>
      map_of res 4 = Some ''5'' \<and> map_of res 5 = Some ''5'' \<and> map_of res 3 = Some ''3''"
    by simp
qed

theorem ban_cascade_witness:
  "factory_built (replace 4 ''x'') \<and> factory_built (ban 4) \<and> factory_built (ban 5) \<and>
   (1::int) \<le> 4 \<and> (4::int) \<le> 10 \<and>
   ban 4 \<in> set [replace 4 ''x'', ban 4, ban 5] \<and>
   (\<exists>res m. evaluate \<lparr>active_rules = [replace 4 ''x'', ban 4, ban 5], range_start = 1, range_end = 10\<rparr>
               = Inr res \<and>
      map_of res 4 = Some (str_int m) \<and> 4 < m \<and> ban m \<notin> set [replace 4 ''x'', ban 4, ban 5]) \<and>
   evaluate \<lparr>active_rules = [replace 4 ''x'', ban 4, ban 5], range_start = 1, range_end = 10\<rparr> =
     Inr [(1, ''1''), (2, ''2''), (3, ''3''), (4, ''6''), (5, ''6''),
          (6, ''6''), (7, ''7''), (8, ''8''), (9, ''9''), (10, ''10'')]"
proof -
  have e: "evaluate \<lparr>active_rules = [replace 4 ''x'', ban 4, ban 5], range_start = 1, range_end = 10\<rparr> =
     Inr [(1, ''1''), (2, ''2''), (3, ''3''), (4, ''6''), (5, ''6''),
          (6, ''6''), (7, ''7''), (8, ''8''), (9, ''9''), (10, ''10'')]"
    by code_simp
  have fb: "factory_built (replace 4 ''x'')" "factory_built (ban 4)" "factory_built (ban 5)"
    by (rule factory_built.intros)+
  from fb ban_cascade [of "\<lparr>active_rules = [replace 4 ''x'', ban 4, ban 5], range_start = 1, range_end = 10\<rparr>" 4]
  have "\<exists>res m. evaluate \<lparr>active_rules = [replace 4 ''x'', ban 4, ban 5], range_start = 1, range_end = 10\<rparr>
               = Inr res \<and>
      map_of res 4 = Some (str_int m) \<and> 4 < m \<and> ban m \<notin> set [replace 4 ''x'', ban 4, ban 5]"
    by auto
  with e fb show ?thesis by simp
qed

text \<open>
  Claim C10. The forward scan is a total function: from \<open>n + 1\<close> it stops at the least number
  above \<open>n\<close> that is not in the banned set, every number in between being banned. When the
  end of the range is banned, its expected answer is the decimal string of a number above the
  end of the range, outside the range. With the range 1 to 10 and the single rule \<open>ban(10)\<close>
  the answer for 10 is \<open>11\<close>.
\<close>

theorem forward_scan_leaves_range:
  "(n < skip_banned bs (n + 1) \<and> PInt (skip_banned bs (n + 1)) \<notin> set bs \<and>
    (\<forall>k. n < k \<and> k < skip_banned bs (n + 1) \<longrightarrow> PInt k \<in> set bs)) \<and>
   ((\<forall>r\<in>set (active_rules g). factory_built r) \<and>
    range_start g \<le> range_end g \<and> ban (range_end g) \<in> set (active_rules g) \<longrightarrow>
      (\<exists>res m. evaluate g = Inr res \<and> map_of res (range_end g) = Some (str_int m) \<and>
         range_end g < m \<and> m \<notin> set [range_start g .. range_end g] \<and>
         ban m \<notin> set (active_rules g))) \<and>
   (\<exists>res. evaluate \<lparr>active_rules = [ban 10], range_start = 1, range_end = 10\<rparr> = Inr res \<and>
      map_of res 10 = Some ''11'')"
proof (intro conjI impI)
  from skip_banned_spec [of "n + 1" bs]
  show "n < skip_banned bs (n + 1)" "PInt (skip_banned bs (n + 1)) \<notin> set bs"
    "\<forall>k. n < k \<and> k < skip_banned bs (n + 1) \<longrightarrow> PInt k \<in> set bs"
    by auto
next
  assume h: "(\<forall>r\<in>set (active_rules g). factory_built r) \<and>
    range_start g \<le> range_end g \<and> ban (range_end g) \<in> set (active_rules g)"
  then have fb: "\<forall>r\<in>set (active_rules g). factory_built r" by simp
  let ?m = "spec_governing_rule (range_start g) (range_end g) (active_rules g)"
  let ?n = "range_end g"
  from evaluate_factory [OF fb] obtain res bs where
    ev: "evaluate g = Inr res"
    and mem: "\<forall>n. PInt n \<in> set bs \<longleftrightarrow> ban n \<in> set (active_rules g)"
    and look: "\<forall>n. range_start g \<le> n \<and> n \<le> range_end g \<longrightarrow>
              (\<exists>s. map_of res n = Some s \<and> expected ?m bs n = Inr s)"
    by blast
  from look h obtain s where s: "map_of res ?n = Some s" "expected ?m bs ?n = Inr s" by blast
  from h mem have "PInt ?n \<in> set bs" by simp
  from expected_banned [OF this s(2)] have s': "s = str_int (skip_banned bs (?n + 1))" .
  from skip_banned_spec [of "?n + 1" bs] mem
  have "?n < skip_banned bs (?n + 1)" "ban (skip_banned bs (?n + 1)) \<notin> set (active_rules g)"
    by auto
  with ev s(1) s' show "\<exists>res m. evaluate g = Inr res \<and> map_of res ?n = Some (str_int m) \<and>
         ?n < m \<and> m \<notin> set [range_start g .. ?n] \<and> ban m \<notin> set (active_rules g)"
    by auto
next
  have "evaluate \<lparr>active_rules = [ban 10], range_start = 1, range_end = 10\<rparr> =
    Inr [(1, ''1''), (2, ''2''), (3, ''3''), (4, ''4''), (5, ''5''),
         (6, ''6''), (7, ''7''), (8, ''8''), (9, ''9''), (10, ''11'')]"
    by code_simp
  then show "\<exists>res. evaluate \<lparr>active_rules = [ban 10], range_start = 1, range_end = 10\<rparr> = Inr res \<and>
      map_of res 10 = Some ''11''"
    by simp
qed

theorem forward_scan_leaves_range_witness:
  "factory_built (ban 10) \<and> factory_built (ban 11) \<and> (1::int) \<le> 10 \<and>
   ban 10 \<in> set [ban 11, ban 10] \<and>
   (\<exists>res m. evaluate \<lparr>active_rules = [ban 11, ban 10], range_start = 1, range_end = 10\<rparr> = Inr res \<and>
      map_of res 10 = Some (str_int m) \<and> 10 < m \<and> m \<notin> set [1 .. 10]) \<and>
   evaluate \<lparr>active_rules = [ban 11, ban 10], range_start = 1, range_end = 10\<rparr> =
     Inr [(1, ''1''), (2, ''2''), (3, ''3''), (4, ''4''), (5, ''5''),
          (6, ''6''), (7, ''7''), (8, ''8''), (9, ''9''), (10, ''12'')] \<and>
   skip_banned [PInt 10, PInt 11] 11 = 12"
proof -
  have e: "evaluate \<lparr>active_rules = [ban 11, ban 10], range_start = 1, range_end = 10\<rparr> =
     Inr [(1, ''1''), (2, ''2''), (3, ''3''), (4, ''4''), (5, ''5''),
          (6, ''6''), (7, ''7''), (8, ''8''), (9, ''9''), (10, ''12'')]"
    by code_simp
  have k: "skip_banned [PInt 10, PInt 11] 11 = 12"
    by code_simp
  have fb: "factory_built (ban 10)" "factory_built (ban 11)"
    by (rule factory_built.intros)+
  from fb forward_scan_leaves_range [of 10 "[PInt 10, PInt 11]"
      "\<lparr>active_rules = [ban 11, ban 10], range_start = 1, range_end = 10\<rparr>"]
  have "\<exists>res m. evaluate \<lparr>active_rules = [ban 11, ban 10], range_start = 1, range_end = 10\<rparr> = Inr res \<and>
      map_of res 10 = Some (str_int m) \<and> 10 < m \<and> m \<notin> set [1 .. 10]"
    by auto
  with e k fb show ?thesis by simp
qed

section \<open>No banned value is rendered\<close>

text \<open>
  Claim C6. For a collection of rules made by the constructors and every range, the
  evaluation raises nothing: no ban rule is in the map of governing rules, the transformation
  of a rule that is not a ban leaves the banned flag as it is, and so the expected answer of
  every number is computed without the exception of \<open>render\<close>.
\<close>

theorem no_banned_error:
  "(\<forall>r\<in>set (active_rules g). factory_built r) \<longrightarrow>
     (\<exists>res. evaluate g = Inr res) \<and>
     (\<exists>m bs. build_rule_map g = Inr (m, bs) \<and>
        (\<forall>k r. m k = Some r \<longrightarrow>
           r \<in> set (active_rules g) \<and> kind r \<noteq> ''ban'' \<and> (\<forall>rv. banned (fn r rv) = banned rv)) \<and>
        (\<forall>num. \<exists>s. expected m bs num = Inr s))"
proof
  assume fb: "\<forall>r\<in>set (active_rules g). factory_built r"
  let ?m = "spec_governing_rule (range_start g) (range_end g) (active_rules g)"
  from evaluate_factory [OF fb] obtain res bs where
    ev: "evaluate g = Inr res" and b: "build_rule_map g = Inr (?m, bs)"
    by blast
  have gov: "r \<in> set (active_rules g) \<and> kind r \<noteq> ''ban'' \<and> (\<forall>rv. banned (fn r rv) = banned rv)"
    if "?m k = Some r" for k r
  proof -
    from spec_governing_rule_Some [OF that] have r: "r \<in> set (active_rules g)"
      and nb: "kind r \<noteq> ''ban''"
      by (auto dest: spec_governs_not_ban)
    from r fb have "factory_built r" by blast
    with nb r show ?thesis by (simp add: fn_keeps_banned)
  qed
  have tot: "\<exists>s. expected ?m bs num = Inr s" for num
    by (rule expected_factory [OF fb])
  from ev b gov tot show "(\<exists>res. evaluate g = Inr res) \<and>
     (\<exists>m bs. build_rule_map g = Inr (m, bs) \<and>
        (\<forall>k r. m k = Some r \<longrightarrow>
           r \<in> set (active_rules g) \<and> kind r \<noteq> ''ban'' \<and> (\<forall>rv. banned (fn r rv) = banned rv)) \<and>
        (\<forall>num. \<exists>s. expected m bs num = Inr s))"
    by blast
qed


theorem no_banned_error_witness:
  "factory_built (ban 4) \<and> factory_built (swap 6 9) \<and>
   factory_built (projr (divisible 3 ''Fizz'')) \<and> factory_built (odd_rule ''Odd'') \<and>
   (\<exists>res. evaluate \<lparr>active_rules = [ban 4, swap 6 9, projr (divisible 3 ''Fizz''), odd_rule ''Odd''],
                      range_start = 1, range_end = 10\<rparr> = Inr res) \<and>
   evaluate \<lparr>active_rules = [ban 4, swap 6 9, projr (divisible 3 ''Fizz''), odd_rule ''Odd''],
             range_start = 1, range_end = 10\<rparr> =
     Inr [(1, ''Odd''), (2, ''2''), (3, ''Odd''), (4, ''5''), (5, ''Odd''),
          (6, ''Fizz''), (7, ''Odd''), (8, ''8''), (9, ''Odd''), (10, ''10'')]"
proof -
  have e: "evaluate \<lparr>active_rules = [ban 4, swap 6 9, projr (divisible 3 ''Fizz''), odd_rule ''Odd''],
             range_start = 1, range_end = 10\<rparr> =
     Inr [(1, ''Odd''), (2, ''2''), (3, ''Odd''), (4, ''5''), (5, ''Odd''),
          (6, ''Fizz''), (7, ''Odd''), (8, ''8''), (9, ''Odd''), (10, ''10'')]"
    by code_simp
  have fb: "factory_built (ban 4)" "factory_built (swap 6 9)"
    "factory_built (projr (divisible 3 ''Fizz''))" "factory_built (odd_rule ''Odd'')"
    by (rule factory_built.intros fizz_built)+
  from fb no_banned_error
    [of "\<lparr>active_rules = [ban 4, swap 6 9, projr (divisible 3 ''Fizz''), odd_rule ''Odd''],
          range_start = 1, range_end = 10\<rparr>"]
  have "\<exists>res. evaluate \<lparr>active_rules = [ban 4, swap 6 9, projr (divisible 3 ''Fizz''), odd_rule ''Odd''],
                      range_start = 1, range_end = 10\<rparr> = Inr res"
    by simp
  with e fb show ?thesis by simp
qed

end
